theory Spec2Isabelle
  imports Complex_Main
begin

section \<open>Data model (types.ts)\<close>

text \<open>
  The interfaces of \<^verbatim>\<open>types.ts\<close>. Optional fields are \<open>option\<close>s, string unions and
  enums are datatypes. The field names \<^verbatim>\<open>id\<close>, \<^verbatim>\<open>name\<close>, \<^verbatim>\<open>size\<close> and \<^verbatim>\<open>type\<close> of
  \<^verbatim>\<open>DriveFile\<close> carry the prefix \<open>file_\<close>, since HOL uses the bare names.
  A JavaScript number that is only carried around (\<^verbatim>\<open>confidence\<close>) is a rational;
  no definition below computes with it.
\<close>

datatype FileCategory =
  WORK | PERSONAL | FINANCE | LEGAL | PHOTOS_VIDEOS | LEARNING | TEMPLATES | ARCHIVE

datatype SensitivityLevel = Normal | Confidential | High_Risk

record DriveFile =
  file_id :: string
  file_name :: string
  file_size :: int
  file_type :: string
  contentSnippet :: "string option"
  lastModified :: int
  thumbnailLink :: "string option"
  webViewLink :: "string option"
  iconLink :: "string option"
  parents :: "string list option"

record AnalysisResult =
  fileId :: string
  category :: FileCategory
  suggestedPath :: string
  suggestedName :: string
  shouldArchive :: bool
  sensitivity :: SensitivityLevel
  reasoning :: string
  confidence :: rat

datatype Status = Pending | Approved | Rejected | Synced | Error

record ProcessedFile = DriveFile +
  analysis :: "AnalysisResult option"
  status :: Status

text \<open>\<^verbatim>\<open>Partial<AnalysisResult>\<close>: every key may be absent.\<close>

record AnalysisUpdate =
  u_fileId :: "string option"
  u_category :: "FileCategory option"
  u_suggestedPath :: "string option"
  u_suggestedName :: "string option"
  u_shouldArchive :: "bool option"
  u_sensitivity :: "SensitivityLevel option"
  u_reasoning :: "string option"
  u_confidence :: "rat option"

section \<open>Review handlers (App component)\<close>

text \<open>
  Each handler of the App component passes an updater \<^verbatim>\<open>prev => prev.map(...)\<close> to
  \<^verbatim>\<open>setFiles\<close>. The model of a handler is that updater: a function from the old list of
  records to the new one. None of the handlers throws, so none has an error result.
\<close>

definition pending_record :: "DriveFile \<Rightarrow> ProcessedFile" where
  \<comment> \<open>\<^verbatim>\<open>{ ...f, status: 'pending' }\<close>\<close>
  "pending_record f = DriveFile.extend f \<lparr>analysis = None, status = Pending\<rparr>"

definition attach_results :: "AnalysisResult list \<Rightarrow> ProcessedFile list \<Rightarrow> ProcessedFile list" where
  \<comment> \<open>\<^verbatim>\<open>prev.map(f => { const result = analysisResults.find(r => r.fileId === f.id);
        return result ? { ...f, analysis: result } : f; })\<close>\<close>
  "attach_results analysisResults prev =
     map (\<lambda>f. case find (\<lambda>r. fileId r = file_id f) analysisResults of
                 Some result \<Rightarrow> f\<lparr>analysis := Some result\<rparr>
               | None \<Rightarrow> f) prev"

definition handleFilesSelected :: "DriveFile list \<Rightarrow> AnalysisResult list option \<Rightarrow> ProcessedFile list" where
  \<comment> \<open>The second argument is the outcome of the awaited \<^verbatim>\<open>analyzeFilesBatch\<close> call:
      \<open>None\<close> when it threw (the catch branch leaves the pending records in place).\<close>
  "handleFilesSelected selectedFiles outcome =
     (let files0 = map pending_record selectedFiles in
      case outcome of
        Some analysisResults \<Rightarrow> attach_results analysisResults files0
      | None \<Rightarrow> files0)"

definition handleApprove :: "string \<Rightarrow> ProcessedFile list \<Rightarrow> ProcessedFile list" where
  "handleApprove i prev = map (\<lambda>f. if file_id f = i then f\<lparr>status := Approved\<rparr> else f) prev"

definition handleReject :: "string \<Rightarrow> ProcessedFile list \<Rightarrow> ProcessedFile list" where
  "handleReject i prev = map (\<lambda>f. if file_id f = i then f\<lparr>status := Rejected\<rparr> else f) prev"

definition handleApproveAll :: "ProcessedFile list \<Rightarrow> ProcessedFile list" where
  "handleApproveAll prev = map (\<lambda>f. if status f = Pending then f\<lparr>status := Approved\<rparr> else f) prev"

definition spread_updates :: "AnalysisResult \<Rightarrow> AnalysisUpdate \<Rightarrow> AnalysisResult" where
  \<comment> \<open>\<^verbatim>\<open>{ ...f.analysis, ...updates }\<close>: a key present in \<^verbatim>\<open>updates\<close> wins.\<close>
  "spread_updates a u =
     \<lparr> fileId = (case u_fileId u of Some v \<Rightarrow> v | None \<Rightarrow> fileId a),
       category = (case u_category u of Some v \<Rightarrow> v | None \<Rightarrow> category a),
       suggestedPath = (case u_suggestedPath u of Some v \<Rightarrow> v | None \<Rightarrow> suggestedPath a),
       suggestedName = (case u_suggestedName u of Some v \<Rightarrow> v | None \<Rightarrow> suggestedName a),
       shouldArchive = (case u_shouldArchive u of Some v \<Rightarrow> v | None \<Rightarrow> shouldArchive a),
       sensitivity = (case u_sensitivity u of Some v \<Rightarrow> v | None \<Rightarrow> sensitivity a),
       reasoning = (case u_reasoning u of Some v \<Rightarrow> v | None \<Rightarrow> reasoning a),
       confidence = (case u_confidence u of Some v \<Rightarrow> v | None \<Rightarrow> confidence a) \<rparr>"

definition handleUpdateAnalysis :: "string \<Rightarrow> AnalysisUpdate \<Rightarrow> ProcessedFile list \<Rightarrow> ProcessedFile list" where
  \<comment> \<open>\<^verbatim>\<open>if (f.id === id && f.analysis) return { ...f, analysis: {...} }; return f;\<close>\<close>
  "handleUpdateAnalysis i updates prev =
     map (\<lambda>f. case analysis f of
                 Some a \<Rightarrow> if file_id f = i then f\<lparr>analysis := Some (spread_updates a updates)\<rparr> else f
               | None \<Rightarrow> f) prev"

text \<open>
  The states of the review list that the handlers can produce: a selection followed by
  any number of approve, reject, approve-all and edit calls.
\<close>

inductive review_reachable :: "ProcessedFile list \<Rightarrow> bool" where
  selected: "review_reachable (handleFilesSelected selectedFiles outcome)"
| approve: "review_reachable fs \<Longrightarrow> review_reachable (handleApprove i fs)"
| reject: "review_reachable fs \<Longrightarrow> review_reachable (handleReject i fs)"
| approveAll: "review_reachable fs \<Longrightarrow> review_reachable (handleApproveAll fs)"
| edit: "review_reachable fs \<Longrightarrow> review_reachable (handleUpdateAnalysis i updates fs)"

text \<open>Sample data used by the concrete evaluations below.\<close>

definition sample_file :: "string \<Rightarrow> DriveFile" where
  "sample_file i =
     \<lparr> file_id = i, file_name = ''IMG_001.jpg'', file_size = 2048, file_type = ''image/jpeg'',
       contentSnippet = None, lastModified = 1650000000000, thumbnailLink = None,
       webViewLink = None, iconLink = None, parents = Some [''p0''] \<rparr>"

definition sample_analysis :: "string \<Rightarrow> string \<Rightarrow> AnalysisResult" where
  "sample_analysis i path =
     \<lparr> fileId = i, category = PHOTOS_VIDEOS, suggestedPath = path,
       suggestedName = ''Beach Trip 2022.jpg'', shouldArchive = True, sensitivity = Normal,
       reasoning = ''Holiday photo'', confidence = 95 / 100 \<rparr>"

definition sample_record :: "string \<Rightarrow> AnalysisResult option \<Rightarrow> Status \<Rightarrow> ProcessedFile" where
  "sample_record i a s = DriveFile.extend (sample_file i) \<lparr>analysis = a, status = s\<rparr>"

section \<open>Drive service\<close>

text \<open>
  The remote store is reached through three calls of the Google API client. They are
  parameters of the model: each takes the state \<open>'d\<close> of the remote side and returns
  either the error the promise rejects with or the field of the response the code reads,
  together with the next remote state. Nothing is assumed about them.

  A value that stands where the code expects a folder id is a \<open>jsref\<close>: a string, or a
  member of \<^verbatim>\<open>Object.prototype\<close>. The second kind arises because \<^verbatim>\<open>folderCache\<close> is a plain
  object: reading it at a key such as \<^verbatim>\<open>constructor\<close> yields the member it inherits, which
  is a function or an object and never a string.
\<close>

datatype jsref =
  StrId string         \<comment> \<open>a string\<close>
| ProtoMember string   \<comment> \<open>what a plain object yields at this name of \<^verbatim>\<open>Object.prototype\<close>\<close>

datatype error =
  RemoteFailure string  \<comment> \<open>a rejected request, passed on as it is\<close>
| NoApiKey              \<comment> \<open>\<^verbatim>\<open>new Error("No API Key provided. ...")\<close>\<close>
| RangeError            \<comment> \<open>\<^verbatim>\<open>Date.prototype.toISOString\<close> on an invalid time value\<close>
| SyntaxError           \<comment> \<open>\<^verbatim>\<open>JSON.parse\<close> on text that is not JSON\<close>
| TypeError             \<comment> \<open>a property read on \<^verbatim>\<open>null\<close>, or a call of something that is no function\<close>

record UpdateParams =
  p_fileId :: string
  p_resource_name :: string
  addParents :: "jsref option"
  removeParents :: "string option"

record 'd gapi =
  drive_files_list :: "string \<Rightarrow> 'd \<Rightarrow> (error + string list) \<times> 'd"
  drive_files_create :: "string \<Rightarrow> jsref \<Rightarrow> 'd \<Rightarrow> (error + string) \<times> 'd"
  drive_files_update :: "UpdateParams \<Rightarrow> 'd \<Rightarrow> (error + unit) \<times> 'd"
  String_trim :: "string \<Rightarrow> string"
  member_text :: "string \<Rightarrow> string"

text \<open>
  \<open>drive_files_list q\<close> stands for \<^verbatim>\<open>drive.files.list({ q, fields: 'files(id)', pageSize: 1 })\<close>
  and yields the ids of \<^verbatim>\<open>response.result.files\<close>; \<open>drive_files_create name parentId\<close> stands for
  \<^verbatim>\<open>drive.files.create\<close> of a folder with that name and parent and yields
  \<^verbatim>\<open>response.result.id\<close>; \<open>drive_files_update\<close> stands for \<^verbatim>\<open>drive.files.update(params)\<close>.
  Two functions of the JavaScript engine are parameters in the same way:
  \<open>String_trim\<close> is \<^verbatim>\<open>String.prototype.trim\<close>, and \<open>member_text k\<close> is the text that a
  template literal gives for the member \<open>k\<close> of \<^verbatim>\<open>Object.prototype\<close> (for a function it is
  implementation-defined).

  The state of the service module is the object \<^verbatim>\<open>folderCache\<close> (the map holds its own
  properties, which are strings; what it inherits is added by \<open>cache_read\<close>) and the
  remote side. The field \<open>creates\<close> is a ghost log that the code
  does not have: one entry per \<^verbatim>\<open>createFolder\<close> call of \<^verbatim>\<open>ensureFolderPath\<close>, newest first,
  holding the cache key the call was made for and whether the call returned a
  non-empty id.
\<close>

record 'd world =
  folderCache :: "string \<rightharpoonup> string"
  remote :: 'd
  creates :: "(string \<times> bool) list"

definition truthy :: "string \<Rightarrow> bool" where
  \<comment> \<open>a JavaScript string in a condition\<close>
  "truthy s = (s \<noteq> [])"

definition truthy_ref :: "jsref \<Rightarrow> bool" where
  \<comment> \<open>a function or an object in a condition is truthy\<close>
  "truthy_ref r = (case r of StrId s \<Rightarrow> truthy s | ProtoMember k \<Rightarrow> True)"

definition ref_text :: "'d gapi \<Rightarrow> jsref \<Rightarrow> string" where
  \<comment> \<open>\<^verbatim>\<open>`${parentId}`\<close>\<close>
  "ref_text g r = (case r of StrId s \<Rightarrow> s | ProtoMember k \<Rightarrow> member_text g k)"

definition Object_prototype_keys :: "string list" where
  \<comment> \<open>the property names of \<^verbatim>\<open>Object.prototype\<close> in a browser\<close>
  "Object_prototype_keys =
     [''constructor'', ''__defineGetter__'', ''__defineSetter__'', ''hasOwnProperty'',
      ''__lookupGetter__'', ''__lookupSetter__'', ''isPrototypeOf'', ''propertyIsEnumerable'',
      ''toString'', ''valueOf'', ''__proto__'', ''toLocaleString'']"

definition cache_read :: "(string \<rightharpoonup> string) \<Rightarrow> string \<Rightarrow> jsref option" where
  \<comment> \<open>\<^verbatim>\<open>folderCache[key]\<close>: the own property, else the inherited member, else
      \<^verbatim>\<open>undefined\<close>\<close>
  "cache_read c k =
     (case c k of
        Some v \<Rightarrow> Some (StrId v)
      | None \<Rightarrow> if k \<in> set Object_prototype_keys then Some (ProtoMember k) else None)"

definition cache_hit :: "(string \<rightharpoonup> string) \<Rightarrow> string \<Rightarrow> jsref option" where
  \<comment> \<open>the value of \<^verbatim>\<open>folderCache[key]\<close> when the condition \<^verbatim>\<open>if (folderCache[key])\<close>
      holds\<close>
  "cache_hit c k =
     (case cache_read c k of Some v \<Rightarrow> if truthy_ref v then Some v else None | None \<Rightarrow> None)"

fun split_on :: "char \<Rightarrow> string \<Rightarrow> string list" where
  \<comment> \<open>\<^verbatim>\<open>s.split(c)\<close>: never empty; \<^verbatim>\<open>"".split("/")\<close> is \<^verbatim>\<open>[""]\<close>\<close>
  "split_on c [] = [[]]"
| "split_on c (x # xs) =
     (if x = c then [] # split_on c xs
      else (case split_on c xs of y # ys \<Rightarrow> (x # y) # ys | [] \<Rightarrow> [[x]]))"

fun join :: "string \<Rightarrow> string list \<Rightarrow> string" where
  \<comment> \<open>\<^verbatim>\<open>xs.join(sep)\<close>\<close>
  "join sep [] = []"
| "join sep [x] = x"
| "join sep (x # y # ys) = x @ sep @ join sep (y # ys)"

definition path_parts :: "'d gapi \<Rightarrow> string \<Rightarrow> string list" where
  \<comment> \<open>\<^verbatim>\<open>path.split('/').map(p => p.trim()).filter(p => p !== '')\<close>\<close>
  "path_parts g path = filter (\<lambda>p. p \<noteq> []) (map (String_trim g) (split_on CHR ''/'' path))"

definition sanitize :: "string \<Rightarrow> string" where
  \<comment> \<open>\<^verbatim>\<open>name.replace(/'/g, "\\'")\<close>: a backslash before every single quote\<close>
  "sanitize name = concat (map (\<lambda>c. if c = CHR 0x27 then [CHR 0x5C, CHR 0x27] else [c]) name)"

definition findFolder_query :: "string \<Rightarrow> string \<Rightarrow> string" where
  "findFolder_query name parentId =
     ''mimeType = '' @ [CHR 0x27] @ ''application/vnd.google-apps.folder'' @ [CHR 0x27] @
     '' and name = '' @ [CHR 0x27] @ sanitize name @ [CHR 0x27] @
     '' and '' @ [CHR 0x27] @ parentId @ [CHR 0x27] @ '' in parents and trashed = false''"

definition findFolder :: "'d gapi \<Rightarrow> string \<Rightarrow> jsref \<Rightarrow> 'd \<Rightarrow> (error + string option) \<times> 'd" where
  \<comment> \<open>\<^verbatim>\<open>response.result.files.length > 0 ? response.result.files[0].id : null\<close>\<close>
  "findFolder g name parentId d =
     (case drive_files_list g (findFolder_query name (ref_text g parentId)) d of
        (Inl e, d') \<Rightarrow> (Inl e, d')
      | (Inr ids, d') \<Rightarrow> (Inr (case ids of [] \<Rightarrow> None | i # _ \<Rightarrow> Some i), d'))"

definition createFolder :: "'d gapi \<Rightarrow> string \<Rightarrow> jsref \<Rightarrow> 'd \<Rightarrow> (error + string) \<times> 'd" where
  "createFolder g name parentId d = drive_files_create g name parentId d"

definition truthy_id :: "string option \<Rightarrow> string option" where
  \<comment> \<open>a value that may be missing, in a condition: missing and \<^verbatim>\<open>''\<close> are both falsy\<close>
  "truthy_id x = (case x of Some v \<Rightarrow> if truthy v then Some v else None | None \<Rightarrow> None)"

definition next_key :: "string \<Rightarrow> string \<Rightarrow> string" where
  \<comment> \<open>\<^verbatim>\<open>currentPathStr ? `${currentPathStr}/${part}` : part\<close>\<close>
  "next_key currentPathStr part =
     (if truthy currentPathStr then currentPathStr @ ''/'' @ part else part)"

text \<open>
  The loop of \<^verbatim>\<open>ensureFolderPath\<close> over the parts, with the loop variables
  \<^verbatim>\<open>currentParentId\<close> and \<^verbatim>\<open>currentPathStr\<close> as arguments. A rejected request ends the
  call with the error; what was cached before stays cached. At a key that names a member
  of \<^verbatim>\<open>Object.prototype\<close> the read is truthy, so the loop takes the member as the parent
  and goes on without a call to the store and without a write to the cache.
\<close>

fun walk_parts :: "'d gapi \<Rightarrow> string list \<Rightarrow> jsref \<Rightarrow> string \<Rightarrow> 'd world \<Rightarrow> (error + jsref) \<times> 'd world" where
  "walk_parts g [] currentParentId currentPathStr w = (Inr currentParentId, w)"
| "walk_parts g (part # rest) currentParentId currentPathStr0 w =
     (let currentPathStr = next_key currentPathStr0 part in
      case cache_hit (folderCache w) currentPathStr of
        Some v \<Rightarrow> walk_parts g rest v currentPathStr w
      | None \<Rightarrow>
         (case findFolder g part currentParentId (remote w) of
            (Inl e, d1) \<Rightarrow> (Inl e, w\<lparr>remote := d1\<rparr>)
          | (Inr found, d1) \<Rightarrow>
             (case truthy_id found of
                Some folderId \<Rightarrow>
                  walk_parts g rest (StrId folderId) currentPathStr
                    (w\<lparr>remote := d1, folderCache := (folderCache w)(currentPathStr \<mapsto> folderId)\<rparr>)
              | None \<Rightarrow>
                 (case createFolder g part currentParentId d1 of
                    (Inl e, d2) \<Rightarrow>
                      (Inl e, w\<lparr>remote := d2, creates := (currentPathStr, False) # creates w\<rparr>)
                  | (Inr folderId, d2) \<Rightarrow>
                      walk_parts g rest (StrId folderId) currentPathStr
                        (w\<lparr>remote := d2,
                           folderCache := (folderCache w)(currentPathStr \<mapsto> folderId),
                           creates := (currentPathStr, truthy folderId) # creates w\<rparr>)))))"

definition ensureFolderPath :: "'d gapi \<Rightarrow> string \<Rightarrow> 'd world \<Rightarrow> (error + jsref) \<times> 'd world" where
  "ensureFolderPath g path w =
     (let parts = path_parts g path in
      if length parts = 0 then (Inr (StrId ''root''), w)
      else walk_parts g parts (StrId ''root'') [] w)"

definition update_params :: "string \<Rightarrow> string \<Rightarrow> string list option \<Rightarrow> jsref option \<Rightarrow> UpdateParams" where
  \<comment> \<open>the \<^verbatim>\<open>params\<close> object that \<^verbatim>\<open>applyFileUpdate\<close> builds\<close>
  "update_params fid newName currentParents targetFolderId =
     (let params = \<lparr> p_fileId = fid, p_resource_name = newName,
                      addParents = None, removeParents = None \<rparr>
      in case targetFolderId of
           None \<Rightarrow> params
         | Some target \<Rightarrow>
            if truthy_ref target \<and> target \<noteq> StrId ''root'' then
              (let isAlreadyHere =
                     (case currentParents of None \<Rightarrow> False | Some ps \<Rightarrow> target \<in> set (map StrId ps))
               in if \<not> isAlreadyHere then
                    (let params1 = params\<lparr>addParents := Some target\<rparr>
                     in case currentParents of
                          None \<Rightarrow> params1
                        | Some ps \<Rightarrow> if length ps > 0 then params1\<lparr>removeParents := Some (join '','' ps)\<rparr>
                                     else params1)
                  else params)
            else params)"

definition applyFileUpdate ::
  "'d gapi \<Rightarrow> string \<Rightarrow> string \<Rightarrow> string list option \<Rightarrow> jsref option \<Rightarrow> 'd \<Rightarrow> (error + unit) \<times> 'd" where
  "applyFileUpdate g fid newName currentParents targetFolderId d =
     drive_files_update g (update_params fid newName currentParents targetFolderId) d"

definition reparents :: "string list option \<Rightarrow> jsref option \<Rightarrow> bool" where
  \<comment> \<open>the condition under which \<^verbatim>\<open>applyFileUpdate\<close> sets \<^verbatim>\<open>params.addParents\<close>: the
      target is given, is not the empty string, is not \<^verbatim>\<open>'root'\<close> and is not among the
      current parents\<close>
  "reparents currentParents targetFolderId =
     (case targetFolderId of
        None \<Rightarrow> False
      | Some target \<Rightarrow> target \<noteq> StrId [] \<and> target \<noteq> StrId ''root'' \<and>
          (case currentParents of None \<Rightarrow> True | Some ps \<Rightarrow> target \<notin> set (map StrId ps)))"

text \<open>A session is a sequence of \<^verbatim>\<open>ensureFolderPath\<close> calls, one after the other.\<close>

definition new_session :: "'d \<Rightarrow> 'd world" where
  "new_session d = \<lparr> folderCache = Map.empty, remote = d, creates = [] \<rparr>"

fun resolve_all :: "'d gapi \<Rightarrow> string list \<Rightarrow> 'd world \<Rightarrow> 'd world" where
  "resolve_all g [] w = w"
| "resolve_all g (path # paths) w = resolve_all g paths (snd (ensureFolderPath g path w))"

section \<open>Sync executor (App component)\<close>

datatype SourceMode = Upload | Drive

record SyncProgress =
  current :: nat
  total_files :: nat

record 'd app =
  files :: "ProcessedFile list"
  isSyncing :: bool
  syncProgress :: SyncProgress
  sourceMode :: SourceMode
  service :: "'d world"

text \<open>
  The \<^verbatim>\<open>try\<close> block of the loop body: resolve the path, then apply the update. The
  \<^verbatim>\<open>catch\<close> clause treats every exception alike; the outcome keeps apart which of the
  two awaited calls threw.
\<close>

datatype outcome = Done | PathFailed error | MutationFailed error

definition try_block :: "'d gapi \<Rightarrow> ProcessedFile \<Rightarrow> AnalysisResult \<Rightarrow> 'd world \<Rightarrow> outcome \<times> 'd world" where
  "try_block g file a w =
     (let path = suggestedPath a in
      case (if truthy path \<and> path \<noteq> ''/'' \<and> path \<noteq> ''.''
            then (case ensureFolderPath g path w of
                    (Inl e, w1) \<Rightarrow> (Inl e, w1)
                  | (Inr t, w1) \<Rightarrow> (Inr (Some t), w1))
            else (Inr None, w)) of
        (Inl e, w1) \<Rightarrow> (PathFailed e, w1)
      | (Inr targetFolderId, w1) \<Rightarrow>
          (case applyFileUpdate g (file_id file) (suggestedName a) (parents file) targetFolderId (remote w1) of
             (Inl e, d2) \<Rightarrow> (MutationFailed e, w1\<lparr>remote := d2\<rparr>)
           | (Inr _, d2) \<Rightarrow> (Done, w1\<lparr>remote := d2\<rparr>)))"

definition set_status :: "string \<Rightarrow> Status \<Rightarrow> ProcessedFile list \<Rightarrow> ProcessedFile list" where
  \<comment> \<open>\<^verbatim>\<open>prev.map(f => f.id === file.id ? { ...f, status: s } : f)\<close>\<close>
  "set_status i s prev = map (\<lambda>f. if file_id f = i then f\<lparr>status := s\<rparr> else f) prev"

text \<open>
  The \<^verbatim>\<open>for\<close> loop over \<^verbatim>\<open>approvedFiles\<close>, which the loop does not change: the recursion
  is over the records still to come, with the index \<open>i\<close> of the first of them.
\<close>

fun sync_loop :: "'d gapi \<Rightarrow> ProcessedFile list \<Rightarrow> nat \<Rightarrow> 'd app \<Rightarrow> 'd app" where
  "sync_loop g [] i st = st"
| "sync_loop g (file # rest) i st =
     (case analysis file of
        None \<Rightarrow> sync_loop g rest (i + 1) st
      | Some a \<Rightarrow>
         (case try_block g file a (service st) of
            (out, w1) \<Rightarrow>
              sync_loop g rest (i + 1)
                (st\<lparr> service := w1,
                     files := set_status (file_id file) (if out = Done then Synced else Error) (files st),
                     syncProgress := (syncProgress st)\<lparr>current := i + 1\<rparr> \<rparr>)))"

definition handleSyncToDrive :: "'d gapi \<Rightarrow> 'd app \<Rightarrow> 'd app" where
  \<comment> \<open>The state when the loop has ended and \<^verbatim>\<open>setIsSyncing(false)\<close> has run. The
      question that follows after 500 ms, and the reset it may lead to, is a later
      user action and not part of it.\<close>
  "handleSyncToDrive g st =
     (if sourceMode st = Upload then st
      else
        (let approvedFiles = filter (\<lambda>f. status f = Approved) (files st) in
         if length approvedFiles = 0 then st
         else
           (let st1 = st\<lparr> isSyncing := True,
                           syncProgress := \<lparr> current = 0, total_files = length approvedFiles \<rparr> \<rparr>;
                st2 = sync_loop g approvedFiles 0 st1
            in st2\<lparr> isSyncing := False \<rparr>)))"

text \<open>
  Ghost: the outcome of the \<^verbatim>\<open>try\<close> block for each record of a run, in order
  (\<open>None\<close> for a record the loop skips), each computed in the state the run has reached.
\<close>

fun sync_outcomes :: "'d gapi \<Rightarrow> ProcessedFile list \<Rightarrow> 'd world \<Rightarrow> outcome option list" where
  "sync_outcomes g [] w = []"
| "sync_outcomes g (file # rest) w =
     (case analysis file of
        None \<Rightarrow> None # sync_outcomes g rest w
      | Some a \<Rightarrow> (case try_block g file a w of (out, w1) \<Rightarrow> Some out # sync_outcomes g rest w1))"

section \<open>A fake store\<close>

text \<open>
  A store for the concrete evaluations: it keeps the folders it has (id, name, text of the
  parent), answers a query by comparing it with the query for each folder, names a new
  folder after the number of folders it holds, rejects its first \<open>rejects\<close> create
  calls and the update of the files listed in \<open>failing\<close>, and logs the updates it
  accepts. Its \<open>String_trim\<close> is \<open>trim_ascii\<close>, which removes the six ASCII white-space
  characters at both ends: on a string that has no other white space, as the paths of the
  evaluations, that is what \<^verbatim>\<open>String.prototype.trim\<close> returns. Its \<open>member_text\<close> is the
  text one engine gives.
\<close>

record fake_drive =
  folders :: "(string \<times> string \<times> string) list"
  rejects :: nat
  failing :: "string list"
  updates :: "UpdateParams list"

definition trim_ascii :: "string \<Rightarrow> string" where
  "trim_ascii s =
     (let is_space = (\<lambda>c. c \<in> set [CHR 0x09, CHR 0x0A, CHR 0x0B, CHR 0x0C, CHR 0x0D, CHR 0x20])
      in rev (dropWhile is_space (rev (dropWhile is_space s))))"

definition fake_member_text :: "string \<Rightarrow> string" where
  "fake_member_text k =
     (if k = ''__proto__'' then ''[object Object]''
      else if k = ''constructor'' then ''function Object() { [native code] }''
      else ''function '' @ k @ ''() { [native code] }'')"

definition fake_gapi :: "fake_drive gapi" where
  "fake_gapi =
     \<lparr> drive_files_list = (\<lambda>q d.
          (Inr (take 1 (map fst (filter (\<lambda>(i, n, p). findFolder_query n p = q) (folders d)))), d)),
       drive_files_create = (\<lambda>name parentId d.
          if rejects d > 0 then (Inl (RemoteFailure ''create rejected''), d\<lparr>rejects := rejects d - 1\<rparr>)
          else
            (let i = ''folder'' @ replicate (length (folders d)) (CHR ''+'');
                 p = (case parentId of StrId s \<Rightarrow> s | ProtoMember k \<Rightarrow> fake_member_text k)
             in (Inr i, d\<lparr>folders := folders d @ [(i, name, p)]\<rparr>))),
       drive_files_update = (\<lambda>params d.
          if p_fileId params \<in> set (failing d) then (Inl (RemoteFailure ''update rejected''), d)
          else (Inr (), d\<lparr>updates := updates d @ [params]\<rparr>)),
       String_trim = trim_ascii,
       member_text = fake_member_text \<rparr>"

definition empty_drive :: fake_drive where
  "empty_drive = \<lparr> folders = [], rejects = 0, failing = [], updates = [] \<rparr>"

definition fake_app :: "ProcessedFile list \<Rightarrow> fake_drive \<Rightarrow> fake_drive app" where
  "fake_app fs d =
     \<lparr> files = fs, isSyncing = False, syncProgress = \<lparr> current = 0, total_files = 0 \<rparr>,
       sourceMode = Drive, service = new_session d \<rparr>"

section \<open>Sync executor: notions used by the properties\<close>

text \<open>
  \<open>approved_of\<close> is the filter that \<^verbatim>\<open>handleSyncToDrive\<close> applies to the list;
  \<open>count_status\<close> counts the records in a status; \<open>final_record\<close> is the record a run
  leaves behind, read off the outcomes of the run; \<open>batch3\<close> and \<open>st3\<close> are a batch of
  three approved records and a store that rejects the update of the second.
\<close>

definition final_record :: "ProcessedFile list \<Rightarrow> outcome option list \<Rightarrow> ProcessedFile \<Rightarrow> ProcessedFile" where
  "final_record ps outs f =
     (case map_of (zip (map file_id ps) outs) (file_id f) of
        Some (Some out) \<Rightarrow> f\<lparr>status := (if out = Done then Synced else Error)\<rparr>
      | _ \<Rightarrow> f)"

definition approved_of :: "ProcessedFile list \<Rightarrow> ProcessedFile list" where
  "approved_of fs = filter (\<lambda>f. status f = Approved) fs"

definition count_status :: "Status \<Rightarrow> ProcessedFile list \<Rightarrow> nat" where
  "count_status s fs = length (filter (\<lambda>f. status f = s) fs)"

definition batch3 :: "ProcessedFile list" where
  "batch3 = [sample_record ''a'' (Some (sample_analysis ''a'' ''Work/2024'')) Approved,
             sample_record ''b'' (Some (sample_analysis ''b'' ''Work/2024'')) Approved,
             sample_record ''c'' (Some (sample_analysis ''c'' [])) Approved]"

definition st3 :: "fake_drive app" where
  "st3 = fake_app batch3 (empty_drive\<lparr>failing := [''b'']\<rparr>)"

section \<open>Folder path resolver: notions used by the properties\<close>

text \<open>
  \<open>cache_le c c'\<close>: every key that reads truthy in \<open>c\<close> reads the same value in \<open>c'\<close>.
  \<open>walk_cached\<close> is the walk of \<^verbatim>\<open>ensureFolderPath\<close> when every prefix is already cached.
  \<open>good_creates\<close> reads the ghost log (newest entry first): no \<^verbatim>\<open>createFolder\<close> call is
  made for a key for which an earlier call has returned a non-empty id.
  \<open>logged_cached\<close>: a key with such an earlier call is cached. \<open>nonempty_ids\<close> is the one
  assumption on the store: a folder it creates never gets the empty string as its id.
  \<open>work_world\<close> is the state of the fake store after \<^verbatim>\<open>Work/2024\<close> has been resolved once;
  \<open>flaky_drive\<close> is the empty fake store that rejects its first create call.
\<close>

definition cache_le :: "(string \<rightharpoonup> string) \<Rightarrow> (string \<rightharpoonup> string) \<Rightarrow> bool" where
  "cache_le c c' = (\<forall>k v. cache_hit c k = Some v \<longrightarrow> cache_hit c' k = Some v)"

fun walk_cached :: "(string \<rightharpoonup> string) \<Rightarrow> string list \<Rightarrow> jsref \<Rightarrow> string \<Rightarrow> jsref option" where
  "walk_cached c [] currentParentId currentPathStr = Some currentParentId"
| "walk_cached c (part # rest) currentParentId currentPathStr =
     (case cache_hit c (next_key currentPathStr part) of
        Some v \<Rightarrow> walk_cached c rest v (next_key currentPathStr part)
      | None \<Rightarrow> None)"

fun good_creates :: "(string \<times> bool) list \<Rightarrow> bool" where
  "good_creates [] = True"
| "good_creates ((k, b) # earlier) = ((k, True) \<notin> set earlier \<and> good_creates earlier)"

definition logged_cached :: "'d world \<Rightarrow> bool" where
  "logged_cached w = (\<forall>k. (k, True) \<in> set (creates w) \<longrightarrow> cache_hit (folderCache w) k \<noteq> None)"

definition nonempty_ids :: "'d gapi \<Rightarrow> bool" where
  "nonempty_ids g =
     (\<forall>name parentId d. fst (drive_files_create g name parentId d) \<noteq> Inr [])"

definition work_world :: "fake_drive world" where
  "work_world =
     \<lparr> folderCache = [''Work'' \<mapsto> ''folder'', ''Work/2024'' \<mapsto> ''folder+''],
       remote = \<lparr> folders = [(''folder'', ''Work'', ''root''), (''folder+'', ''2024'', ''folder'')],
                  rejects = 0, failing = [], updates = [] \<rparr>,
       creates = [(''Work/2024'', True), (''Work'', True)] \<rparr>"

definition flaky_drive :: fake_drive where
  "flaky_drive = \<lparr> folders = [], rejects = 1, failing = [], updates = [] \<rparr>"

section \<open>Classification gateway (Gemini service)\<close>

text \<open>
  \<^verbatim>\<open>analyzeFilesBatch\<close>. What it gets from outside is a parameter of the model (record
  \<open>genai\<close>): the environment's key, the text of a date, the remote call
  \<^verbatim>\<open>ai.models.generateContent\<close> (given the key and the text of the request, it yields the
  error it rejects with, or \<^verbatim>\<open>response.text\<close>, which may be missing), and \<^verbatim>\<open>JSON.parse\<close>
  (\<open>None\<close> when it throws). The model name, the system instruction and the response
  schema are constants of the request and are left out of it.

  A parsed value is a \<open>jsval\<close>. The cast \<^verbatim>\<open>as AnalysisResult[]\<close> does nothing at run time, so
  the function returns \<open>jsval\<close>s: \<open>retag\<close> is \<^verbatim>\<open>r => ({ ...r, category: r.category })\<close> on any
  value (a property read on \<^verbatim>\<open>null\<close> throws; spreading an array or a string gives its
  indices as keys; spreading a number or a boolean gives nothing), \<open>retag_all\<close> is the
  \<^verbatim>\<open>map\<close> over the array, which ends at the first element that throws.
  \<open>valid_time\<close> is the range in which \<^verbatim>\<open>toISOString\<close> does not throw. \<open>conforms\<close> is the
  response schema of the request: the required keys with their types and enumerations,
  and \<^verbatim>\<open>confidence\<close> a number when present. \<open>key_to_use\<close> and \<open>prompt_text\<close> name the key
  and the request text that \<^verbatim>\<open>analyzeFilesBatch\<close> computes. \<open>fake_genai reply\<close> is a
  service that answers every request with \<open>reply\<close>, with a \<^verbatim>\<open>JSON.parse\<close> that knows three
  texts.
\<close>

datatype jsval =
  JUndefined | JNull | JBool bool | JNum rat | JStr string
| JArr "jsval list" | JObj "(string \<times> jsval) list"

record genai =
  env_API_KEY :: "string option"
  toISOString :: "int \<Rightarrow> string"
  generateContent :: "string \<Rightarrow> string \<Rightarrow> error + string option"
  JSON_parse :: "string \<Rightarrow> jsval option"

definition valid_time :: "int \<Rightarrow> bool" where
  "valid_time t = (\<bar>t\<bar> \<le> 8640000000000000)"

definition describe_file :: "genai \<Rightarrow> DriveFile \<Rightarrow> string" where
  "describe_file env f =
     [CHR 0x0A] @ ''    File ID: '' @ file_id f @
     [CHR 0x0A] @ ''    Name: '' @ file_name f @
     [CHR 0x0A] @ ''    Type: '' @ file_type f @
     [CHR 0x0A] @ ''    Modified: '' @ toISOString env (lastModified f) @
     [CHR 0x0A] @ ''    Snippet: '' @
       (case truthy_id (contentSnippet f) of
          Some snippet \<Rightarrow> take 1000 snippet
        | None \<Rightarrow> ''Binary file, infer context from name and type.'') @
     [CHR 0x0A] @ ''  ''"

definition fileDescriptions :: "genai \<Rightarrow> DriveFile list \<Rightarrow> error + string" where
  "fileDescriptions env fs =
     (if list_all (\<lambda>f. valid_time (lastModified f)) fs
      then Inr (join ([CHR 0x0A] @ ''---'' @ [CHR 0x0A]) (map (describe_file env) fs))
      else Inl RangeError)"

definition digit_char :: "nat \<Rightarrow> char" where
  "digit_char d = char_of (48 + d)"

function show_nat :: "nat \<Rightarrow> string" where
  "show_nat n = (if n < 10 then [digit_char n] else show_nat (n div 10) @ [digit_char (n mod 10)])"
  by pat_completeness auto
termination
  by (relation "measure (\<lambda>n. n)") auto

definition obj_get :: "(string \<times> jsval) list \<Rightarrow> string \<Rightarrow> jsval" where
  "obj_get kvs k = (case map_of kvs k of Some v \<Rightarrow> v | None \<Rightarrow> JUndefined)"

definition obj_set :: "string \<Rightarrow> jsval \<Rightarrow> (string \<times> jsval) list \<Rightarrow> (string \<times> jsval) list" where
  "obj_set k v kvs =
     (if k \<in> fst ` set kvs then map (\<lambda>(k', v'). if k' = k then (k', v) else (k', v')) kvs
      else kvs @ [(k, v)])"

fun retag :: "jsval \<Rightarrow> error + jsval" where
  "retag JNull = Inl TypeError"
| "retag JUndefined = Inl TypeError"
| "retag (JObj kvs) = Inr (JObj (obj_set ''category'' (obj_get kvs ''category'') kvs))"
| "retag (JArr xs) =
     Inr (JObj (zip (map show_nat [0..<length xs]) xs @ [(''category'', JUndefined)]))"
| "retag (JStr s) =
     Inr (JObj (zip (map show_nat [0..<length s]) (map (\<lambda>c. JStr [c]) s) @ [(''category'', JUndefined)]))"
| "retag (JNum n) = Inr (JObj [(''category'', JUndefined)])"
| "retag (JBool b) = Inr (JObj [(''category'', JUndefined)])"

fun retag_all :: "jsval list \<Rightarrow> error + jsval list" where
  "retag_all [] = Inr []"
| "retag_all (r # rs) =
     (case retag r of
        Inl e \<Rightarrow> Inl e
      | Inr r' \<Rightarrow> (case retag_all rs of Inl e \<Rightarrow> Inl e | Inr rs' \<Rightarrow> Inr (r' # rs')))"

definition analyzeFilesBatch :: "genai \<Rightarrow> DriveFile list \<Rightarrow> string option \<Rightarrow> error + jsval list" where
  "analyzeFilesBatch env fs apiKey =
     (if length fs = 0 then Inr []
      else
        (case (case truthy_id apiKey of Some k \<Rightarrow> Some k | None \<Rightarrow> truthy_id (env_API_KEY env)) of
           None \<Rightarrow> Inl NoApiKey
         | Some keyToUse \<Rightarrow>
            (case fileDescriptions env fs of
               Inl e \<Rightarrow> Inl e
             | Inr descriptions \<Rightarrow>
                (case generateContent env keyToUse
                        (''Analyze the following files and provide organization suggestions:'' @
                         [CHR 0x0A, CHR 0x0A] @ descriptions) of
                   Inl e \<Rightarrow> Inl e
                 | Inr response_text \<Rightarrow>
                    (case truthy_id response_text of
                       None \<Rightarrow> Inr []
                     | Some text \<Rightarrow>
                        (case JSON_parse env text of
                           None \<Rightarrow> Inl SyntaxError
                         | Some (JArr results) \<Rightarrow> retag_all results
                         | Some _ \<Rightarrow> Inl TypeError))))))"

definition is_JStr :: "jsval \<Rightarrow> bool" where
  "is_JStr v = (case v of JStr _ \<Rightarrow> True | _ \<Rightarrow> False)"

definition conforms :: "jsval \<Rightarrow> bool" where
  "conforms v =
     (case v of
        JObj kvs \<Rightarrow>
          is_JStr (obj_get kvs ''fileId'') \<and>
          obj_get kvs ''category'' \<in> set (map JStr [''01_Work'', ''02_Personal'', ''03_Finance'',
             ''04_Legal'', ''05_Photos_Videos'', ''06_Learning'', ''07_Templates'', ''99_Archive'']) \<and>
          is_JStr (obj_get kvs ''suggestedPath'') \<and>
          is_JStr (obj_get kvs ''suggestedName'') \<and>
          (case obj_get kvs ''shouldArchive'' of JBool _ \<Rightarrow> True | _ \<Rightarrow> False) \<and>
          obj_get kvs ''sensitivity'' \<in> set (map JStr [''Normal'', ''Confidential'', ''High Risk'']) \<and>
          is_JStr (obj_get kvs ''reasoning'') \<and>
          (case obj_get kvs ''confidence'' of JNum _ \<Rightarrow> True | JUndefined \<Rightarrow> True | _ \<Rightarrow> False)
      | _ \<Rightarrow> False)"

definition fake_genai :: "(error + string option) \<Rightarrow> genai" where
  "fake_genai reply =
     \<lparr> env_API_KEY = None,
       toISOString = (\<lambda>t. ''2022-04-15T05:20:00.000Z''),
       generateContent = (\<lambda>key text. reply),
       JSON_parse = (\<lambda>text. if text = ''[{}]'' then Some (JArr [JObj []])
                               else if text = ''[]'' then Some (JArr [])
                               else if text = ''{}'' then Some (JObj [])
                               else None) \<rparr>"

definition prompt_text :: "genai \<Rightarrow> DriveFile list \<Rightarrow> string" where
  "prompt_text env fs =
     ''Analyze the following files and provide organization suggestions:'' @ [CHR 0x0A, CHR 0x0A] @
     join ([CHR 0x0A] @ ''---'' @ [CHR 0x0A]) (map (describe_file env) fs)"

definition key_to_use :: "genai \<Rightarrow> string option \<Rightarrow> string option" where
  "key_to_use env apiKey =
     (case truthy_id apiKey of Some k \<Rightarrow> Some k | None \<Rightarrow> truthy_id (env_API_KEY env))"

section \<open>Review handlers: properties\<close>

lemma sample_record_sel [simp]:
  "file_id (sample_record i a s) = i"
  "analysis (sample_record i a s) = a"
  "status (sample_record i a s) = s"
  "parents (sample_record i a s) = Some [''p0'']"
  by (simp_all add: sample_record_def sample_file_def DriveFile.extend_def)

lemma sample_record_status_upd [simp]:
  "(sample_record i a s)\<lparr>status := s'\<rparr> = sample_record i a s'"
  by (simp add: sample_record_def sample_file_def DriveFile.extend_def)

lemma sample_record_analysis_upd [simp]:
  "(sample_record i a s)\<lparr>analysis := a'\<rparr> = sample_record i a' s"
  by (simp add: sample_record_def sample_file_def DriveFile.extend_def)

lemma sample_record_eq [simp]:
  "sample_record i a s = sample_record i' a' s' \<longleftrightarrow> i = i' \<and> a = a' \<and> s = s'"
  by (auto simp add: sample_record_def sample_file_def DriveFile.extend_def)

lemma pending_sample [simp]: "pending_record (sample_file i) = sample_record i None Pending"
  by (simp add: pending_record_def sample_record_def)


subsection \<open>approveAll\<close>

lemma handleApproveAll_length [simp]: "length (handleApproveAll fs) = length fs"
  by (simp add: handleApproveAll_def)

lemma handleApproveAll_nth:
  "n < length fs \<Longrightarrow>
   handleApproveAll fs ! n = (if status (fs ! n) = Pending then (fs ! n)\<lparr>status := Approved\<rparr> else fs ! n)"
  by (simp add: handleApproveAll_def)

lemma handleApproveAll_idem: "handleApproveAll (handleApproveAll fs) = handleApproveAll fs"
  by (induction fs) (simp_all add: handleApproveAll_def)

text \<open>
  Claim C8. \<^verbatim>\<open>approveAll()\<close> keeps the list's length and order; a record whose status is
  \<open>Pending\<close> becomes the same record with status \<open>Approved\<close> (no other field changes);
  a record in any other status is returned as it was; and calling it a second time right
  after the first changes nothing.
\<close>

theorem approveAll_exactly_pending:
  "length (handleApproveAll fs) = length fs \<and>
   (\<forall>n<length fs. status (fs ! n) = Pending \<longrightarrow>
        handleApproveAll fs ! n = (fs ! n)\<lparr>status := Approved\<rparr>) \<and>
   (\<forall>n<length fs. status (fs ! n) \<noteq> Pending \<longrightarrow> handleApproveAll fs ! n = fs ! n) \<and>
   handleApproveAll (handleApproveAll fs) = handleApproveAll fs"
  by (simp add: handleApproveAll_nth handleApproveAll_idem)

theorem approveAll_exactly_pending_witness:
  "(0::nat) < length [sample_record ''a'' None Pending, sample_record ''b'' None Synced] \<and>
   status ([sample_record ''a'' None Pending, sample_record ''b'' None Synced] ! 0) = Pending \<and>
   status ([sample_record ''a'' None Pending, sample_record ''b'' None Synced] ! 1) \<noteq> Pending \<and>
   handleApproveAll [sample_record ''a'' None Pending, sample_record ''b'' None Synced]
     = [sample_record ''a'' None Approved, sample_record ''b'' None Synced] \<and>
   handleApproveAll (handleApproveAll [sample_record ''a'' None Pending, sample_record ''b'' None Synced])
     = handleApproveAll [sample_record ''a'' None Pending, sample_record ''b'' None Synced]"
  using approveAll_exactly_pending [of "[sample_record ''a'' None Pending, sample_record ''b'' None Synced]"]
  by (simp add: handleApproveAll_def)

subsection \<open>approve and reject\<close>

lemma handleApprove_nth:
  "n < length fs \<Longrightarrow>
   handleApprove i fs ! n = (if file_id (fs ! n) = i then (fs ! n)\<lparr>status := Approved\<rparr> else fs ! n)"
  by (simp add: handleApprove_def)

lemma handleReject_nth:
  "n < length fs \<Longrightarrow>
   handleReject i fs ! n = (if file_id (fs ! n) = i then (fs ! n)\<lparr>status := Rejected\<rparr> else fs ! n)"
  by (simp add: handleReject_def)

text \<open>
  Claim C2, as stated, fails: neither handler looks at the record's status. A record in
  status \<open>Synced\<close> is moved to \<open>Approved\<close> by \<^verbatim>\<open>approve\<close>, and a record in status
  \<open>Error\<close> is moved to \<open>Rejected\<close> by \<^verbatim>\<open>reject\<close>.
\<close>

theorem approve_reject_not_guarded_counterexample:
  "status (sample_record ''f1'' None Synced) \<noteq> Pending \<and>
   status (handleApprove ''f1'' [sample_record ''f1'' None Synced] ! 0) \<noteq> Synced \<and>
   handleApprove ''f1'' [sample_record ''f1'' None Synced] = [sample_record ''f1'' None Approved] \<and>
   handleReject ''f1'' [sample_record ''f1'' None Error] = [sample_record ''f1'' None Rejected]"
  by (simp add: handleApprove_def handleReject_def)

text \<open>
  Claim C2, amended. \<^verbatim>\<open>approve(id)\<close> returns the list in which every record with that id
  has status \<open>Approved\<close> and \<^verbatim>\<open>reject(id)\<close> the list in which it has status \<open>Rejected\<close>,
  whatever the status was before; the record's other fields, the records with another id,
  and the length and order of the list are unchanged. The handlers have no error outcome.
\<close>

theorem approve_reject_unconditional:
  "length (handleApprove i fs) = length fs \<and> length (handleReject i fs) = length fs \<and>
   (\<forall>n<length fs. file_id (fs ! n) = i \<longrightarrow>
        handleApprove i fs ! n = (fs ! n)\<lparr>status := Approved\<rparr> \<and>
        handleReject i fs ! n = (fs ! n)\<lparr>status := Rejected\<rparr>) \<and>
   (\<forall>n<length fs. file_id (fs ! n) \<noteq> i \<longrightarrow>
        handleApprove i fs ! n = fs ! n \<and> handleReject i fs ! n = fs ! n)"
  by (simp add: handleApprove_nth handleReject_nth) (simp add: handleApprove_def handleReject_def)

theorem approve_reject_unconditional_witness:
  "(1::nat) < length [sample_record ''a'' None Pending, sample_record ''b'' None Synced] \<and>
   file_id ([sample_record ''a'' None Pending, sample_record ''b'' None Synced] ! 1) = ''b'' \<and>
   file_id ([sample_record ''a'' None Pending, sample_record ''b'' None Synced] ! 0) \<noteq> ''b'' \<and>
   handleApprove ''b'' [sample_record ''a'' None Pending, sample_record ''b'' None Synced]
     = [sample_record ''a'' None Pending, sample_record ''b'' None Approved] \<and>
   handleReject ''b'' [sample_record ''a'' None Pending, sample_record ''b'' None Synced]
     = [sample_record ''a'' None Pending, sample_record ''b'' None Rejected]"
  using approve_reject_unconditional
          [of "''b''" "[sample_record ''a'' None Pending, sample_record ''b'' None Synced]"]
  by (simp add: handleApprove_def handleReject_def)

subsection \<open>editAnalysis\<close>

lemma handleUpdateAnalysis_length [simp]: "length (handleUpdateAnalysis i u fs) = length fs"
  by (simp add: handleUpdateAnalysis_def)

lemma handleUpdateAnalysis_nth:
  "n < length fs \<Longrightarrow>
   handleUpdateAnalysis i u fs ! n =
     (case analysis (fs ! n) of
        Some a \<Rightarrow> if file_id (fs ! n) = i then (fs ! n)\<lparr>analysis := Some (spread_updates a u)\<rparr> else fs ! n
      | None \<Rightarrow> fs ! n)"
  by (simp add: handleUpdateAnalysis_def)

lemma spread_updates_fields:
  "suggestedName (spread_updates a u) = (case u_suggestedName u of Some v \<Rightarrow> v | None \<Rightarrow> suggestedName a)"
  "suggestedPath (spread_updates a u) = (case u_suggestedPath u of Some v \<Rightarrow> v | None \<Rightarrow> suggestedPath a)"
  "fileId (spread_updates a u) = (case u_fileId u of Some v \<Rightarrow> v | None \<Rightarrow> fileId a)"
  "category (spread_updates a u) = (case u_category u of Some v \<Rightarrow> v | None \<Rightarrow> category a)"
  "shouldArchive (spread_updates a u) = (case u_shouldArchive u of Some v \<Rightarrow> v | None \<Rightarrow> shouldArchive a)"
  "sensitivity (spread_updates a u) = (case u_sensitivity u of Some v \<Rightarrow> v | None \<Rightarrow> sensitivity a)"
  "reasoning (spread_updates a u) = (case u_reasoning u of Some v \<Rightarrow> v | None \<Rightarrow> reasoning a)"
  "confidence (spread_updates a u) = (case u_confidence u of Some v \<Rightarrow> v | None \<Rightarrow> confidence a)"
  by (simp_all add: spread_updates_def)

text \<open>
  Claim C9, as stated, fails in its second half: on a record with no AnalysisResult the
  handler returns the list exactly as it was; it has no error outcome.
\<close>

theorem editAnalysis_missing_is_silent_counterexample:
  "analysis (sample_record ''f1'' None Pending) = None \<and>
   handleUpdateAnalysis ''f1''
      \<lparr> u_fileId = None, u_category = None, u_suggestedPath = Some ''Work'',
        u_suggestedName = Some ''Report.pdf'', u_shouldArchive = None, u_sensitivity = None,
        u_reasoning = None, u_confidence = None \<rparr>
      [sample_record ''f1'' None Pending]
   = [sample_record ''f1'' None Pending]"
  by (simp add: handleUpdateAnalysis_def)

text \<open>
  Claim C9, amended. \<^verbatim>\<open>editAnalysis(id, partialUpdate)\<close> replaces the AnalysisResult of
  every record that has that id and an AnalysisResult by the merge of the two, in which a
  field given by the update takes the update's value and every other field keeps its old
  value; a record that has no AnalysisResult, and a record with another id, is returned
  unchanged, and no error is signalled.
\<close>

theorem editAnalysis_merges_or_skips:
  "length (handleUpdateAnalysis i u fs) = length fs \<and>
   (\<forall>n<length fs. \<forall>a. analysis (fs ! n) = Some a \<and> file_id (fs ! n) = i \<longrightarrow>
        handleUpdateAnalysis i u fs ! n = (fs ! n)\<lparr>analysis := Some (spread_updates a u)\<rparr> \<and>
        suggestedName (spread_updates a u) = (case u_suggestedName u of Some v \<Rightarrow> v | None \<Rightarrow> suggestedName a) \<and>
        suggestedPath (spread_updates a u) = (case u_suggestedPath u of Some v \<Rightarrow> v | None \<Rightarrow> suggestedPath a) \<and>
        fileId (spread_updates a u) = (case u_fileId u of Some v \<Rightarrow> v | None \<Rightarrow> fileId a) \<and>
        category (spread_updates a u) = (case u_category u of Some v \<Rightarrow> v | None \<Rightarrow> category a) \<and>
        shouldArchive (spread_updates a u) = (case u_shouldArchive u of Some v \<Rightarrow> v | None \<Rightarrow> shouldArchive a) \<and>
        sensitivity (spread_updates a u) = (case u_sensitivity u of Some v \<Rightarrow> v | None \<Rightarrow> sensitivity a) \<and>
        reasoning (spread_updates a u) = (case u_reasoning u of Some v \<Rightarrow> v | None \<Rightarrow> reasoning a) \<and>
        confidence (spread_updates a u) = (case u_confidence u of Some v \<Rightarrow> v | None \<Rightarrow> confidence a)) \<and>
   (\<forall>n<length fs. analysis (fs ! n) = None \<or> file_id (fs ! n) \<noteq> i \<longrightarrow>
        handleUpdateAnalysis i u fs ! n = fs ! n)"
proof (intro conjI allI impI)
  show "length (handleUpdateAnalysis i u fs) = length fs" by simp
next
  fix n a assume "n < length fs" "analysis (fs ! n) = Some a \<and> file_id (fs ! n) = i"
  then show "handleUpdateAnalysis i u fs ! n = (fs ! n)\<lparr>analysis := Some (spread_updates a u)\<rparr>"
    by (simp add: handleUpdateAnalysis_nth)
next
  fix n assume "n < length fs" "analysis (fs ! n) = None \<or> file_id (fs ! n) \<noteq> i"
  then show "handleUpdateAnalysis i u fs ! n = fs ! n"
    by (auto simp add: handleUpdateAnalysis_nth split: option.splits)
qed (simp_all only: spread_updates_fields)

theorem editAnalysis_merges_or_skips_witness:
  "(1::nat) < length [sample_record ''a'' None Pending,
                      sample_record ''b'' (Some (sample_analysis ''b'' ''Old'')) Pending] \<and>
   handleUpdateAnalysis ''b''
      \<lparr> u_fileId = None, u_category = None, u_suggestedPath = Some ''Work'',
        u_suggestedName = None, u_shouldArchive = None, u_sensitivity = None,
        u_reasoning = None, u_confidence = None \<rparr>
      [sample_record ''a'' None Pending, sample_record ''b'' (Some (sample_analysis ''b'' ''Old'')) Pending]
   = [sample_record ''a'' None Pending, sample_record ''b'' (Some (sample_analysis ''b'' ''Work'')) Pending]"
  using editAnalysis_merges_or_skips
          [of "''b''" "\<lparr> u_fileId = None, u_category = None, u_suggestedPath = Some ''Work'',
                u_suggestedName = None, u_shouldArchive = None, u_sensitivity = None,
                u_reasoning = None, u_confidence = None \<rparr>"
              "[sample_record ''a'' None Pending,
                sample_record ''b'' (Some (sample_analysis ''b'' ''Old'')) Pending]"]
  by (simp add: handleUpdateAnalysis_def spread_updates_def sample_analysis_def)

subsection \<open>Approval and the AnalysisResult\<close>

lemma attach_no_results: "attach_results [] fs = fs"
  by (simp add: attach_results_def)

text \<open>
  Claim C1, as stated, fails: a file for which the classifier returned no result is a
  pending record without AnalysisResult, and \<^verbatim>\<open>approve\<close> moves it to \<open>Approved\<close>.
\<close>

theorem approved_without_analysis_counterexample:
  "review_reachable (handleApprove ''f1'' (handleFilesSelected [sample_file ''f1''] (Some []))) \<and>
   handleApprove ''f1'' (handleFilesSelected [sample_file ''f1''] (Some []))
     = [sample_record ''f1'' None Approved] \<and>
   status (sample_record ''f1'' None Approved) = Approved \<and>
   analysis (sample_record ''f1'' None Approved) = None \<and>
   handleApproveAll (handleFilesSelected [sample_file ''f1''] (Some []))
     = [sample_record ''f1'' None Approved]"
  by (simp add: review_reachable.intros)
    (simp add: handleApprove_def handleApproveAll_def handleFilesSelected_def attach_no_results)

lemma handleApprove_analysis: "map analysis (handleApprove i fs) = map analysis fs"
  by (induction fs) (simp_all add: handleApprove_def)

lemma handleApproveAll_analysis: "map analysis (handleApproveAll fs) = map analysis fs"
  by (induction fs) (simp_all add: handleApproveAll_def)

lemma handleApprove_status: "f \<in> set (handleApprove i fs) \<Longrightarrow> file_id f = i \<Longrightarrow> status f = Approved"
proof (induction fs)
  case Nil
  then show ?case by (simp add: handleApprove_def)
next
  case (Cons g gs)
  have step: "handleApprove i (g # gs) = (if file_id g = i then g\<lparr>status := Approved\<rparr> else g) # handleApprove i gs"
    by (simp add: handleApprove_def)
  from Cons.prems(1) have "f = (if file_id g = i then g\<lparr>status := Approved\<rparr> else g) \<or> f \<in> set (handleApprove i gs)"
    unfolding step by simp
  then show ?case
  proof
    assume eq: "f = (if file_id g = i then g\<lparr>status := Approved\<rparr> else g)"
    show ?thesis
    proof (cases "file_id g = i")
      case True
      with eq show ?thesis by simp
    next
      case False
      with eq Cons.prems(2) show ?thesis by simp
    qed
  next
    assume "f \<in> set (handleApprove i gs)"
    with Cons show ?thesis by blast
  qed
qed

lemma handleApproveAll_status: "f \<in> set (handleApproveAll fs) \<Longrightarrow> status f \<noteq> Pending"
proof (induction fs)
  case Nil
  then show ?case by (simp add: handleApproveAll_def)
next
  case (Cons g gs)
  have step: "handleApproveAll (g # gs) = (if status g = Pending then g\<lparr>status := Approved\<rparr> else g) # handleApproveAll gs"
    by (simp add: handleApproveAll_def)
  from Cons.prems(1) have "f = (if status g = Pending then g\<lparr>status := Approved\<rparr> else g) \<or> f \<in> set (handleApproveAll gs)"
    unfolding step by simp
  then show ?case
  proof
    assume eq: "f = (if status g = Pending then g\<lparr>status := Approved\<rparr> else g)"
    show ?thesis
      by (cases "status g = Pending") (simp_all add: eq)
  next
    assume "f \<in> set (handleApproveAll gs)"
    with Cons show ?thesis by blast
  qed
qed

text \<open>
  Claim C1, amended. \<^verbatim>\<open>approve(id)\<close> and \<^verbatim>\<open>approveAll()\<close> do not look at the
  AnalysisResult and do not change it: after \<^verbatim>\<open>approve(id)\<close> every record with that id is
  \<open>Approved\<close>, after \<^verbatim>\<open>approveAll()\<close> no record is \<open>Pending\<close>, and in both cases every
  record has the AnalysisResult (or the lack of one) that it had before. So a record with
  no AnalysisResult can be \<open>Approved\<close>.
\<close>

theorem approve_ignores_analysis:
  "map analysis (handleApprove i fs) = map analysis fs \<and>
   map analysis (handleApproveAll fs) = map analysis fs \<and>
   (\<forall>f \<in> set (handleApprove i fs). file_id f = i \<longrightarrow> status f = Approved) \<and>
   (\<forall>f \<in> set (handleApproveAll fs). status f \<noteq> Pending)"
  using handleApprove_analysis handleApproveAll_analysis handleApprove_status handleApproveAll_status
  by blast

theorem approve_ignores_analysis_witness:
  "sample_record ''f1'' None Approved \<in> set (handleApprove ''f1'' [sample_record ''f1'' None Pending]) \<and>
   sample_record ''f1'' None Approved \<in> set (handleApproveAll [sample_record ''f1'' None Pending]) \<and>
   file_id (sample_record ''f1'' None Approved) = ''f1'' \<and>
   status (sample_record ''f1'' None Approved) = Approved \<and>
   map analysis (handleApprove ''f1'' [sample_record ''f1'' None Pending]) = [None] \<and>
   map analysis (handleApproveAll [sample_record ''f1'' None Pending]) = [None]"
  using approve_ignores_analysis [of "''f1''" "[sample_record ''f1'' None Pending]"]
  by (simp add: handleApprove_def handleApproveAll_def)

section \<open>Remote mutation applier: properties\<close>

lemma update_params_name [simp]:
  "p_fileId (update_params fid newName cp t) = fid"
  "p_resource_name (update_params fid newName cp t) = newName"
  by (simp_all add: update_params_def Let_def split: option.splits)

lemma update_params_addParents:
  "addParents (update_params fid newName cp t) = (if reparents cp t then t else None)"
  by (cases t; cases cp)
     (auto simp add: update_params_def reparents_def truthy_def truthy_ref_def Let_def
           split: jsref.splits)

lemma update_params_removeParents:
  "removeParents (update_params fid newName cp t) =
     (case cp of Some ps \<Rightarrow> if reparents cp t \<and> ps \<noteq> [] then Some (join '','' ps) else None
               | None \<Rightarrow> None)"
  by (cases t; cases cp)
     (auto simp add: update_params_def reparents_def truthy_def truthy_ref_def Let_def
           split: jsref.splits)

text \<open>
  Claim C6, as stated, fails: with the target \<^verbatim>\<open>'root'\<close>, which is given and is not among
  the current parents, the request carries neither \<^verbatim>\<open>addParents\<close> nor \<^verbatim>\<open>removeParents\<close>.
\<close>

theorem applyFileUpdate_root_counterexample:
  "''root'' \<notin> set [''p0''] \<and>
   applyFileUpdate fake_gapi ''f1'' ''New.jpg'' (Some [''p0'']) (Some (StrId ''root'')) empty_drive =
     drive_files_update fake_gapi
       \<lparr> p_fileId = ''f1'', p_resource_name = ''New.jpg'', addParents = None, removeParents = None \<rparr>
       empty_drive"
  by (simp add: applyFileUpdate_def update_params_def truthy_def truthy_ref_def)

text \<open>
  Claim C6, amended. The request of \<^verbatim>\<open>applyUpdate\<close> always carries the file id and the new
  name. It carries \<^verbatim>\<open>addParents = targetFolderId\<close> exactly when \<^verbatim>\<open>targetFolderId\<close> is given,
  is not the empty string, is not \<^verbatim>\<open>'root'\<close> and is not a member of \<^verbatim>\<open>currentParents\<close>
  (predicate \<open>reparents\<close>); in that case, and when \<^verbatim>\<open>currentParents\<close> has at least one
  member, it carries \<^verbatim>\<open>removeParents\<close> with all of them, joined by commas. In every other
  case neither field is sent.
\<close>

theorem applyFileUpdate_request:
  "applyFileUpdate g fid newName currentParents targetFolderId d =
     drive_files_update g
       \<lparr> p_fileId = fid, p_resource_name = newName,
         addParents = (if reparents currentParents targetFolderId then targetFolderId else None),
         removeParents =
           (case currentParents of
              Some ps \<Rightarrow> if reparents currentParents targetFolderId \<and> ps \<noteq> []
                         then Some (join '','' ps) else None
            | None \<Rightarrow> None) \<rparr> d"
proof -
  have "update_params fid newName currentParents targetFolderId =
       \<lparr> p_fileId = fid, p_resource_name = newName,
         addParents = (if reparents currentParents targetFolderId then targetFolderId else None),
         removeParents =
           (case currentParents of
              Some ps \<Rightarrow> if reparents currentParents targetFolderId \<and> ps \<noteq> []
                         then Some (join '','' ps) else None
            | None \<Rightarrow> None) \<rparr>"
    by (rule UpdateParams.equality)
       (simp_all add: update_params_addParents update_params_removeParents)
  then show ?thesis by (simp add: applyFileUpdate_def)
qed

theorem applyFileUpdate_request_witness:
  "reparents (Some [''p0'', ''p1'']) (Some (StrId ''folder9'')) \<and>
   \<not> reparents (Some [''p0'', ''folder9'']) (Some (StrId ''folder9'')) \<and>
   \<not> reparents (Some [''p0'']) None \<and>
   applyFileUpdate fake_gapi ''f1'' ''New.jpg'' (Some [''p0'', ''p1'']) (Some (StrId ''folder9'')) empty_drive =
     drive_files_update fake_gapi
       \<lparr> p_fileId = ''f1'', p_resource_name = ''New.jpg'',
         addParents = Some (StrId ''folder9''), removeParents = Some ''p0,p1'' \<rparr> empty_drive"
  using applyFileUpdate_request
          [of fake_gapi "''f1''" "''New.jpg''" "Some [''p0'', ''p1'']" "Some (StrId ''folder9'')" empty_drive]
  by (simp add: reparents_def)

text \<open>
  Claim C10. When the target is the root identifier \<^verbatim>\<open>'root'\<close>, the request of
  \<^verbatim>\<open>applyUpdate\<close> is the rename alone, whatever the current parents are (also when
  \<^verbatim>\<open>'root'\<close> is not among them): it has no \<^verbatim>\<open>addParents\<close> and no \<^verbatim>\<open>removeParents\<close>.
\<close>

theorem applyFileUpdate_root_is_rename_only:
  "applyFileUpdate g fid newName currentParents (Some (StrId ''root'')) d =
     drive_files_update g \<lparr> p_fileId = fid, p_resource_name = newName,
                      addParents = None, removeParents = None \<rparr> d"
  by (simp add: applyFileUpdate_def update_params_def)

section \<open>Sync executor: properties\<close>

lemma sync_outcomes_length [simp]: "length (sync_outcomes g ps w) = length ps"
  by (induction ps arbitrary: w) (simp_all split: option.splits prod.splits)

lemma sync_loop_fixed:
  "total_files (syncProgress (sync_loop g ps i st)) = total_files (syncProgress st) \<and>
   isSyncing (sync_loop g ps i st) = isSyncing st \<and>
   sourceMode (sync_loop g ps i st) = sourceMode st"
  by (induction ps arbitrary: i st) (simp_all split: option.splits prod.splits)

lemma sync_loop_current_all:
  "\<forall>f\<in>set ps. analysis f \<noteq> None \<Longrightarrow> ps \<noteq> [] \<Longrightarrow>
   current (syncProgress (sync_loop g ps i st)) = i + length ps"
proof (induction ps arbitrary: i st)
  case Nil
  then show ?case by simp
next
  case (Cons p ps)
  from Cons.prems obtain a where a: "analysis p = Some a" by auto
  obtain out w1 where tb: "try_block g p a (service st) = (out, w1)" by (cases "try_block g p a (service st)")
  show ?case
  proof (cases ps)
    case Nil
    then show ?thesis using a tb by simp
  next
    case (Cons q qs)
    then have "ps \<noteq> []" by simp
    moreover from Cons.prems have "\<forall>f\<in>set ps. analysis f \<noteq> None" by simp
    ultimately show ?thesis using Cons.IH a tb by simp
  qed
qed

lemma map_of_zip_absent: "k \<notin> set xs \<Longrightarrow> map_of (zip xs ys) k = None"
  by (auto simp add: map_of_eq_None_iff dest: set_zip_leftD)

lemma final_record_skip:
  "file_id p \<notin> file_id ` set ps \<Longrightarrow>
   final_record (p # ps) (None # outs) f = final_record ps outs f"
proof (cases "file_id f = file_id p")
  case True
  assume "file_id p \<notin> file_id ` set ps"
  then have "file_id f \<notin> set (map file_id ps)" using True by simp
  then have "map_of (zip (map file_id ps) outs) (file_id f) = None"
    by (rule map_of_zip_absent)
  then show ?thesis using True by (simp add: final_record_def)
next
  case False
  then show ?thesis by (simp add: final_record_def)
qed

lemma final_record_step:
  assumes "file_id p \<notin> file_id ` set ps"
  shows "final_record ps outs (if file_id f = file_id p then f\<lparr>status := s\<rparr> else f) =
         (if file_id f = file_id p then f\<lparr>status := s\<rparr> else final_record ps outs f)"
proof (cases "file_id f = file_id p")
  case True
  from assms have "file_id p \<notin> set (map file_id ps)" by simp
  then have "map_of (zip (map file_id ps) outs) (file_id p) = None"
    by (rule map_of_zip_absent)
  then show ?thesis using True by (simp add: final_record_def)
next
  case False
  then show ?thesis by simp
qed

lemma final_record_head:
  "final_record (p # ps) (Some out # outs) f =
     (if file_id f = file_id p then f\<lparr>status := (if out = Done then Synced else Error)\<rparr>
      else final_record ps outs f)"
  by (simp add: final_record_def)

lemma sync_loop_files:
  "distinct (map file_id ps) \<Longrightarrow>
   files (sync_loop g ps i st) = map (final_record ps (sync_outcomes g ps (service st))) (files st)"
proof (induction ps arbitrary: i st)
  case Nil
  have "\<And>f. final_record [] [] f = f" by (simp add: final_record_def)
  then show ?case by (simp add: map_idI)
next
  case (Cons p ps)
  from Cons.prems have notin: "file_id p \<notin> file_id ` set ps" and dist: "distinct (map file_id ps)"
    by simp_all
  show ?case
  proof (cases "analysis p")
    case None
    have "files (sync_loop g (p # ps) i st) = files (sync_loop g ps (i + 1) st)"
      using None by simp
    also have "\<dots> = map (final_record ps (sync_outcomes g ps (service st))) (files st)"
      using Cons.IH [OF dist] by simp
    also have "\<dots> = map (final_record (p # ps) (None # sync_outcomes g ps (service st))) (files st)"
      using final_record_skip [OF notin] by simp
    finally show ?thesis using None by simp
  next
    case (Some a)
    obtain out w1 where tb: "try_block g p a (service st) = (out, w1)"
      by (cases "try_block g p a (service st)")
    define s where "s = (if out = Done then Synced else Error)"
    define st1 where "st1 = st\<lparr> service := w1,
                     files := set_status (file_id p) s (files st),
                     syncProgress := (syncProgress st)\<lparr>current := i + 1\<rparr> \<rparr>"
    have "files (sync_loop g (p # ps) i st) = files (sync_loop g ps (i + 1) st1)"
      using Some tb by (simp add: st1_def s_def)
    also have "\<dots> = map (final_record ps (sync_outcomes g ps (service st1))) (files st1)"
      using Cons.IH [OF dist] by simp
    also have "\<dots> = map (final_record ps (sync_outcomes g ps w1)) (set_status (file_id p) s (files st))"
      by (simp add: st1_def)
    also have "\<dots> = map (final_record (p # ps) (Some out # sync_outcomes g ps w1)) (files st)"
      unfolding set_status_def map_map comp_def final_record_step [OF notin] final_record_head s_def
      by simp
    finally show ?thesis using Some tb by simp
  qed
qed

lemma length_filter_disj:
  "\<forall>x\<in>set xs. \<not> (P x \<and> Q x) \<Longrightarrow>
   length (filter (\<lambda>x. P x \<or> Q x) xs) = length (filter P xs) + length (filter Q xs)"
  by (induction xs) auto

lemma length_filter_key:
  "distinct (map key xs) \<Longrightarrow> x \<in> set xs \<Longrightarrow> length (filter (\<lambda>y. key y = key x) xs) = 1"
proof (induction xs)
  case Nil
  then show ?case by simp
next
  case (Cons y ys)
  show ?case
  proof (cases "key y = key x")
    case True
    with Cons.prems have "key x \<notin> key ` set ys" by simp
    then have "\<And>z. z \<in> set ys \<Longrightarrow> key z \<noteq> key x" by (metis imageI)
    then have "filter (\<lambda>z. key z = key x) ys = []" by (simp add: filter_empty_conv)
    with True show ?thesis by simp
  next
    case False
    with Cons.prems have "x \<in> set ys" "distinct (map key ys)" by auto
    with Cons.IH False show ?thesis by simp
  qed
qed

lemma final_record_approved_run:
  assumes dist: "distinct (map file_id xs)"
    and ap: "ap = filter (\<lambda>f. status f = Approved) xs"
    and len: "length outs = length ap"
    and k: "k < length ap"
    and fail: "outs ! k = Some (MutationFailed e)"
    and ok: "\<forall>j<length ap. j \<noteq> k \<longrightarrow> outs ! j = Some Done"
    and f: "f \<in> set xs"
  shows "final_record ap outs f =
         (if status f = Approved
          then f\<lparr>status := (if file_id f = file_id (ap ! k) then Error else Synced)\<rparr> else f)"
proof (cases "status f = Approved")
  case True
  with f ap have "f \<in> set ap" by simp
  then obtain j where j: "j < length ap" "ap ! j = f" by (auto simp add: in_set_conv_nth)
  have dap: "distinct (map file_id ap)" using dist ap by (simp add: distinct_map_filter)
  have "map_of (zip (map file_id ap) outs) (map file_id ap ! j) = Some (outs ! j)"
    using dap len j(1) by (intro map_of_zip_nth) simp_all
  then have look: "map_of (zip (map file_id ap) outs) (file_id f) = Some (outs ! j)"
    using j by simp
  have jk: "file_id f = file_id (ap ! k) \<longleftrightarrow> j = k"
  proof
    assume "file_id f = file_id (ap ! k)"
    then have "map file_id ap ! j = map file_id ap ! k" using j k by simp
    moreover have "j < length (map file_id ap)" "k < length (map file_id ap)" using j(1) k by simp_all
    ultimately show "j = k" using dap nth_eq_iff_index_eq by blast
  next
    assume "j = k" then show "file_id f = file_id (ap ! k)" using j by simp
  qed
  show ?thesis
  proof (cases "j = k")
    case True
    then show ?thesis using look fail jk \<open>status f = Approved\<close> by (simp add: final_record_def)
  next
    case False
    with ok j(1) have "outs ! j = Some Done" by simp
    then show ?thesis using look False jk \<open>status f = Approved\<close> by (simp add: final_record_def)
  qed
next
  case False
  have "file_id f \<notin> set (map file_id ap)"
  proof
    assume "file_id f \<in> set (map file_id ap)"
    then obtain g where g: "g \<in> set ap" "file_id g = file_id f" by auto
    from g(1) ap have gx: "g \<in> set xs" and gs: "status g = Approved" by simp_all
    from dist have "inj_on file_id (set xs)" by (simp add: distinct_map)
    with gx f g(2) have "g = f" by (auto dest: inj_onD)
    with gs False show False by simp
  qed
  then have "map_of (zip (map file_id ap) outs) (file_id f) = None" by (rule map_of_zip_absent)
  then show ?thesis using False by (simp add: final_record_def)
qed

lemma handleSyncToDrive_run:
  assumes "sourceMode st = Drive" "approved_of (files st) \<noteq> []"
  shows "handleSyncToDrive g st =
         (sync_loop g (approved_of (files st)) 0
            (st\<lparr> isSyncing := True,
                 syncProgress := \<lparr> current = 0, total_files = length (approved_of (files st)) \<rparr> \<rparr>))
         \<lparr> isSyncing := False \<rparr>"
  using assms by (simp add: handleSyncToDrive_def approved_of_def Let_def)

lemma count_after_map:
  "count_status s (map h xs) = length (filter (\<lambda>f. status (h f) = s) xs)"
  by (simp add: count_status_def filter_map comp_def)

lemma sync_counts:
  assumes dist: "distinct (map file_id xs)"
    and a: "a \<in> set xs" "status a = Approved"
    and h: "h = (\<lambda>f. if status f = Approved
                      then f\<lparr>status := (if file_id f = file_id a then Error else Synced)\<rparr> else f)"
  shows "count_status Approved (map h xs) = 0"
    and "count_status Synced (map h xs) = count_status Synced xs + (length (approved_of xs) - 1)"
    and "count_status Error (map h xs) = count_status Error xs + 1"
proof -
  have inj: "inj_on file_id (set xs)" using dist by (simp add: distinct_map)
  have same: "\<And>f. f \<in> set xs \<Longrightarrow> file_id f = file_id a \<Longrightarrow> f = a"
    using inj a(1) by (auto dest: inj_onD)
  have one: "length (filter (\<lambda>f. file_id f = file_id a) xs) = 1"
    using dist a(1) by (rule length_filter_key)
  have "filter (\<lambda>f. status f = Approved \<and> file_id f = file_id a) xs
        = filter (\<lambda>f. file_id f = file_id a) xs"
    using same a(2) by (intro filter_cong) auto
  then have B: "length (filter (\<lambda>f. status f = Approved \<and> file_id f = file_id a) xs) = 1"
    using one by simp
  have "length (approved_of xs) =
        length (filter (\<lambda>f. (status f = Approved \<and> file_id f \<noteq> file_id a) \<or>
                              (status f = Approved \<and> file_id f = file_id a)) xs)"
    unfolding approved_of_def by (intro arg_cong [where f = length] filter_cong) auto
  also have "\<dots> = length (filter (\<lambda>f. status f = Approved \<and> file_id f \<noteq> file_id a) xs) +
                   length (filter (\<lambda>f. status f = Approved \<and> file_id f = file_id a) xs)"
    by (rule length_filter_disj) simp
  finally have A: "length (filter (\<lambda>f. status f = Approved \<and> file_id f \<noteq> file_id a) xs)
                   = length (approved_of xs) - 1"
    using B by simp
  have hA: "\<And>f. status (h f) = Approved \<longleftrightarrow> False" by (simp add: h)
  have hS: "\<And>f. status (h f) = Synced \<longleftrightarrow>
                 status f = Synced \<or> (status f = Approved \<and> file_id f \<noteq> file_id a)"
    by (simp add: h)
  have hE: "\<And>f. status (h f) = Error \<longleftrightarrow>
                 status f = Error \<or> (status f = Approved \<and> file_id f = file_id a)"
    by (simp add: h)
  show "count_status Approved (map h xs) = 0"
    unfolding count_after_map hA by simp
  have "count_status Synced (map h xs) =
        length (filter (\<lambda>f. status f = Synced) xs) +
        length (filter (\<lambda>f. status f = Approved \<and> file_id f \<noteq> file_id a) xs)"
    unfolding count_after_map hS by (rule length_filter_disj) simp
  then show "count_status Synced (map h xs) = count_status Synced xs + (length (approved_of xs) - 1)"
    using A by (simp add: count_status_def)
  have "count_status Error (map h xs) =
        length (filter (\<lambda>f. status f = Error) xs) +
        length (filter (\<lambda>f. status f = Approved \<and> file_id f = file_id a) xs)"
    unfolding count_after_map hE by (rule length_filter_disj) simp
  then show "count_status Error (map h xs) = count_status Error xs + 1"
    using B by (simp add: count_status_def)
qed

text \<open>
  Claim C3. Take a state in Drive mode whose records have pairwise distinct ids (the data
  model's uniqueness of \<^verbatim>\<open>id\<close>) and whose approved records all carry an AnalysisResult.
  If in the run the mutation step of the approved record number \<open>k\<close> fails and the
  \<^verbatim>\<open>try\<close> block of every other approved record succeeds, then the run goes through the
  whole batch: the progress pair ends as \<open>current = total = N\<close>, the number of approved
  records; the failing record ends in \<open>Error\<close> and every other approved record in
  \<open>Synced\<close>, also those after the failing one; no record is left \<open>Approved\<close>; the
  number of \<open>Synced\<close> records has grown by \<open>N - 1\<close> and the number of \<open>Error\<close> records
  by one; records that were not approved are unchanged.
\<close>

theorem sync_one_mutation_failure:
  assumes mode: "sourceMode st = Drive"
    and dist: "distinct (map file_id (files st))"
    and has: "\<forall>f\<in>set (approved_of (files st)). analysis f \<noteq> None"
    and k: "k < length (approved_of (files st))"
    and fail: "sync_outcomes g (approved_of (files st)) (service st) ! k = Some (MutationFailed e)"
    and ok: "\<forall>j<length (approved_of (files st)). j \<noteq> k \<longrightarrow>
               sync_outcomes g (approved_of (files st)) (service st) ! j = Some Done"
  shows "syncProgress (handleSyncToDrive g st) =
           \<lparr> current = length (approved_of (files st)),
             total_files = length (approved_of (files st)) \<rparr> \<and>
         isSyncing (handleSyncToDrive g st) = False \<and>
         files (handleSyncToDrive g st) =
           map (\<lambda>f. if status f = Approved
                     then f\<lparr>status := (if file_id f = file_id (approved_of (files st) ! k)
                                        then Error else Synced)\<rparr>
                     else f) (files st) \<and>
         count_status Approved (files (handleSyncToDrive g st)) = 0 \<and>
         count_status Synced (files (handleSyncToDrive g st)) =
           count_status Synced (files st) + (length (approved_of (files st)) - 1) \<and>
         count_status Error (files (handleSyncToDrive g st)) = count_status Error (files st) + 1"
proof -
  define ap where "ap = approved_of (files st)"
  define st1 where "st1 = st\<lparr> isSyncing := True,
                               syncProgress := \<lparr> current = 0, total_files = length ap \<rparr> \<rparr>"
  define h :: "ProcessedFile \<Rightarrow> ProcessedFile" where "h = (\<lambda>f. if status f = Approved
                      then f\<lparr>status := (if file_id f = file_id (ap ! k) then Error else Synced)\<rparr>
                      else f)"
  have ne: "ap \<noteq> []" using k by (auto simp add: ap_def)
  have run: "handleSyncToDrive g st = (sync_loop g ap 0 st1)\<lparr> isSyncing := False \<rparr>"
    using handleSyncToDrive_run [OF mode] ne by (simp add: ap_def st1_def)
  have cur: "current (syncProgress (sync_loop g ap 0 st1)) = length ap"
    using sync_loop_current_all [of ap g 0 st1] has ne by (simp add: ap_def)
  have tot: "total_files (syncProgress (sync_loop g ap 0 st1)) = length ap"
    using sync_loop_fixed [of g ap 0 st1] by (simp add: st1_def)
  have prog: "syncProgress (handleSyncToDrive g st) = \<lparr> current = length ap, total_files = length ap \<rparr>"
    unfolding run using cur tot by (intro SyncProgress.equality) simp_all
  have idle: "isSyncing (handleSyncToDrive g st) = False"
    unfolding run by simp
  have dap: "distinct (map file_id ap)"
    using dist by (simp add: ap_def approved_of_def distinct_map_filter)
  have "files (sync_loop g ap 0 st1) = map (final_record ap (sync_outcomes g ap (service st1))) (files st1)"
    using dap by (rule sync_loop_files)
  also have "\<dots> = map (final_record ap (sync_outcomes g ap (service st))) (files st)"
    by (simp add: st1_def)
  also have "\<dots> = map h (files st)"
  proof (rule map_cong [OF refl])
    fix f assume f: "f \<in> set (files st)"
    show "final_record ap (sync_outcomes g ap (service st)) f = h f"
      unfolding h_def
      by (rule final_record_approved_run [OF dist _ _ _ _ _ f, where k = k and e = e])
         (use k fail ok in \<open>simp_all add: ap_def approved_of_def\<close>)
  qed
  finally have fs: "files (handleSyncToDrive g st) = map h (files st)"
    unfolding run by simp
  have a: "ap ! k \<in> set (files st)" "status (ap ! k) = Approved"
    using k nth_mem [of k ap] by (auto simp add: ap_def approved_of_def)
  note cnt = sync_counts [OF dist a, of h, OF h_def]
  show ?thesis
    using prog idle fs cnt by (simp add: ap_def h_def)
qed

lemmas eval_defs =
  ensureFolderPath_def truthy_id_def next_key_def path_parts_def trim_ascii_def truthy_def Let_def
  truthy_ref_def ref_text_def cache_hit_def cache_read_def Object_prototype_keys_def
  findFolder_def createFolder_def fake_gapi_def findFolder_query_def sanitize_def
  new_session_def empty_drive_def try_block_def applyFileUpdate_def update_params_def
  sample_analysis_def

lemma outs3: "sync_outcomes fake_gapi batch3 (new_session (empty_drive\<lparr>failing := [''b'']\<rparr>))
   = [Some Done, Some (MutationFailed (RemoteFailure ''update rejected'')), Some Done]"
  by (simp add: batch3_def eval_defs)

theorem sync_one_mutation_failure_witness:
  "sourceMode st3 = Drive \<and> distinct (map file_id (files st3)) \<and>
   approved_of (files st3) = batch3 \<and> length batch3 = 3 \<and>
   list_all (\<lambda>f. analysis f \<noteq> None) batch3 \<and>
   sync_outcomes fake_gapi (approved_of (files st3)) (service st3)
     = [Some Done, Some (MutationFailed (RemoteFailure ''update rejected'')), Some Done] \<and>
   syncProgress (handleSyncToDrive fake_gapi st3) = \<lparr> current = 3, total_files = 3 \<rparr> \<and>
   isSyncing (handleSyncToDrive fake_gapi st3) = False \<and>
   map status (files (handleSyncToDrive fake_gapi st3)) = [Synced, Error, Synced] \<and>
   count_status Approved (files (handleSyncToDrive fake_gapi st3)) = 0 \<and>
   count_status Synced (files (handleSyncToDrive fake_gapi st3)) = 2 \<and>
   count_status Error (files (handleSyncToDrive fake_gapi st3)) = 1"
proof -
  have fs: "files st3 = batch3" and sv: "service st3 = new_session (empty_drive\<lparr>failing := [''b'']\<rparr>)"
    by (simp_all add: st3_def fake_app_def)
  have m: "sourceMode st3 = Drive" by (simp add: st3_def fake_app_def)
  have ap: "approved_of (files st3) = batch3" by (simp add: fs approved_of_def batch3_def)
  have d: "distinct (map file_id (files st3))" by (simp add: fs batch3_def)
  have len: "length batch3 = 3" by (simp add: batch3_def)
  have h: "\<forall>f\<in>set (approved_of (files st3)). analysis f \<noteq> None" by (simp add: ap) (simp add: batch3_def)
  have k: "1 < length (approved_of (files st3))" by (simp add: ap len)
  have outs: "sync_outcomes fake_gapi (approved_of (files st3)) (service st3)
     = [Some Done, Some (MutationFailed (RemoteFailure ''update rejected'')), Some Done]"
    unfolding ap sv by (rule outs3)
  have f: "sync_outcomes fake_gapi (approved_of (files st3)) (service st3) ! 1
             = Some (MutationFailed (RemoteFailure ''update rejected''))"
    by (simp add: outs)
  have o: "\<forall>j<length (approved_of (files st3)). j \<noteq> 1 \<longrightarrow>
             sync_outcomes fake_gapi (approved_of (files st3)) (service st3) ! j = Some Done"
    unfolding outs by (simp add: ap len numeral_3_eq_3 less_Suc_eq)
  have ap': "approved_of batch3 = batch3" using ap by (simp add: fs)
  note res = sync_one_mutation_failure [OF m d h k f o, unfolded fs ap']
  from res have p: "syncProgress (handleSyncToDrive fake_gapi st3) = \<lparr> current = 3, total_files = 3 \<rparr>"
    by (simp add: len)
  from res have i: "isSyncing (handleSyncToDrive fake_gapi st3) = False"
    by simp
  from res have fl: "files (handleSyncToDrive fake_gapi st3) =
      [sample_record ''a'' (Some (sample_analysis ''a'' ''Work/2024'')) Synced,
       sample_record ''b'' (Some (sample_analysis ''b'' ''Work/2024'')) Error,
       sample_record ''c'' (Some (sample_analysis ''c'' [])) Synced]"
    by (simp add: batch3_def)
  have c: "count_status Approved (files (handleSyncToDrive fake_gapi st3)) = 0"
      "count_status Synced (files (handleSyncToDrive fake_gapi st3)) = 2"
      "count_status Error (files (handleSyncToDrive fake_gapi st3)) = 1"
    unfolding fl by (simp_all add: count_status_def)
  have s: "map status (files (handleSyncToDrive fake_gapi st3)) = [Synced, Error, Synced]"
    unfolding fl by simp
  have h': "list_all (\<lambda>f. analysis f \<noteq> None) batch3" using h by (simp add: ap list_all_iff)
  show ?thesis
    using m d ap len h' outs p i s c by blast
qed

lemma sync_loop_current_le:
  "current (syncProgress st) \<le> i \<Longrightarrow>
   current (syncProgress (sync_loop g ps i st)) \<le> i + length ps"
proof (induction ps arbitrary: i st)
  case Nil
  then show ?case by simp
next
  case (Cons p ps)
  show ?case
  proof (cases "analysis p")
    case None
    from Cons.prems have "current (syncProgress st) \<le> i + 1" by simp
    from Cons.IH [OF this] show ?thesis using None by simp
  next
    case (Some a)
    obtain out w1 where tb: "try_block g p a (service st) = (out, w1)"
      by (cases "try_block g p a (service st)")
    show ?thesis using Some tb Cons.IH [of _ "i + 1"] by simp
  qed
qed

lemma sync_loop_current_last:
  "ps \<noteq> [] \<Longrightarrow> analysis (last ps) \<noteq> None \<Longrightarrow>
   current (syncProgress (sync_loop g ps i st)) = i + length ps"
proof (induction ps arbitrary: i st)
  case Nil
  then show ?case by simp
next
  case (Cons p ps)
  show ?case
  proof (cases "ps = []")
    case True
    with Cons.prems obtain a where a: "analysis p = Some a" by auto
    obtain out w1 where tb: "try_block g p a (service st) = (out, w1)"
      by (cases "try_block g p a (service st)")
    show ?thesis using True a tb by simp
  next
    case False
    with Cons.prems have l: "analysis (last ps) \<noteq> None" by simp
    note IH = Cons.IH [OF False l]
    show ?thesis
    proof (cases "analysis p")
      case None
      then show ?thesis using IH [of "i + 1" st] by simp
    next
      case (Some a)
      obtain out w1 where tb: "try_block g p a (service st) = (out, w1)"
        by (cases "try_block g p a (service st)")
      show ?thesis using Some tb IH [of "i + 1"] by simp
    qed
  qed
qed

lemma sync_loop_current_skipped_last:
  "ps \<noteq> [] \<Longrightarrow> analysis (last ps) = None \<Longrightarrow> current (syncProgress st) \<le> i \<Longrightarrow>
   current (syncProgress (sync_loop g ps i st)) < i + length ps"
proof (induction ps arbitrary: i st)
  case Nil
  then show ?case by simp
next
  case (Cons p ps)
  show ?case
  proof (cases "ps = []")
    case True
    with Cons.prems show ?thesis by simp
  next
    case False
    with Cons.prems have l: "analysis (last ps) = None" by simp
    note IH = Cons.IH [OF False l]
    show ?thesis
    proof (cases "analysis p")
      case None
      from Cons.prems have "current (syncProgress st) \<le> i + 1" by simp
      from IH [OF this] show ?thesis using None by simp
    next
      case (Some a)
      obtain out w1 where tb: "try_block g p a (service st) = (out, w1)"
        by (cases "try_block g p a (service st)")
      show ?thesis using Some tb IH [of _ "i + 1"] by simp
    qed
  qed
qed

lemma sync_progress_complete_iff:
  assumes "sourceMode st = Drive" "approved_of (files st) \<noteq> []"
  shows "total_files (syncProgress (handleSyncToDrive g st)) = length (approved_of (files st)) \<and>
         (current (syncProgress (handleSyncToDrive g st)) = total_files (syncProgress (handleSyncToDrive g st))
            \<longleftrightarrow> analysis (last (approved_of (files st))) \<noteq> None)"
proof -
  define ap where "ap = approved_of (files st)"
  define st1 where "st1 = st\<lparr> isSyncing := True,
                               syncProgress := \<lparr> current = 0, total_files = length ap \<rparr> \<rparr>"
  have run: "handleSyncToDrive g st = (sync_loop g ap 0 st1)\<lparr> isSyncing := False \<rparr>"
    using handleSyncToDrive_run [OF assms] by (simp add: ap_def st1_def)
  have tot: "total_files (syncProgress (handleSyncToDrive g st)) = length ap"
    unfolding run using sync_loop_fixed [of g ap 0 st1] by (simp add: st1_def)
  have ne: "ap \<noteq> []" using assms(2) by (simp add: ap_def)
  have c0: "current (syncProgress st1) \<le> 0" by (simp add: st1_def)
  have "current (syncProgress (handleSyncToDrive g st)) = length ap \<longleftrightarrow> analysis (last ap) \<noteq> None"
  proof (cases "analysis (last ap)")
    case None
    from sync_loop_current_skipped_last [OF ne None c0, of g]
    show ?thesis unfolding run using None by simp
  next
    case (Some a)
    then have "analysis (last ap) \<noteq> None" by simp
    from sync_loop_current_last [OF ne this, of g 0 st1]
    show ?thesis unfolding run using Some by simp
  qed
  then show ?thesis using tot by (simp add: ap_def)
qed

text \<open>
  Claim C5 does not hold of the code: the \<^verbatim>\<open>continue\<close> for a record without
  AnalysisResult leaves the loop body before \<^verbatim>\<open>setSyncProgress\<close>. By
  \<open>sync_progress_complete_iff\<close> the run ends with \<open>current = total\<close> exactly when the
  last approved record has an AnalysisResult. For a batch of one approved record without
  AnalysisResult the run ends with progress \<open>0 / 1\<close>, and for a batch whose second and
  last record has none, with \<open>1 / 2\<close>.
\<close>

theorem sync_progress_skipped_record:
  "approved_of [sample_record ''f1'' None Approved] = [sample_record ''f1'' None Approved] \<and>
   syncProgress (handleSyncToDrive fake_gapi (fake_app [sample_record ''f1'' None Approved] empty_drive))
     = \<lparr> current = 0, total_files = 1 \<rparr> \<and>
   isSyncing (handleSyncToDrive fake_gapi (fake_app [sample_record ''f1'' None Approved] empty_drive))
     = False \<and>
   syncProgress (handleSyncToDrive fake_gapi
       (fake_app [sample_record ''a'' (Some (sample_analysis ''a'' [])) Approved,
                  sample_record ''f1'' None Approved] empty_drive))
     = \<lparr> current = 1, total_files = 2 \<rparr>"
  by (simp add: approved_of_def handleSyncToDrive_def fake_app_def eval_defs)

section \<open>Folder path resolver: properties\<close>

lemma truthy_id_Some: "truthy_id x = Some v \<longleftrightarrow> x = Some v \<and> truthy v"
  by (cases x) (auto simp add: truthy_id_def)

lemma cache_hit_upd: "truthy fid \<Longrightarrow> cache_hit (c(k \<mapsto> fid)) k = Some (StrId fid)"
  by (simp add: cache_hit_def cache_read_def truthy_ref_def)

lemma cache_hit_other: "k' \<noteq> k \<Longrightarrow> cache_hit (c(k \<mapsto> fid)) k' = cache_hit c k'"
  by (simp add: cache_hit_def cache_read_def)

lemma cache_le_refl: "cache_le c c"
  by (simp add: cache_le_def)

lemma cache_le_trans: "cache_le a b \<Longrightarrow> cache_le b c \<Longrightarrow> cache_le a c"
  by (simp add: cache_le_def)

lemma cache_le_upd: "cache_hit c k = None \<Longrightarrow> cache_le c (c(k \<mapsto> fid))"
  unfolding cache_le_def
proof (intro allI impI)
  fix k' v assume h: "cache_hit c k = None" "cache_hit c k' = Some v"
  then have "k' \<noteq> k" by auto
  then show "cache_hit (c(k \<mapsto> fid)) k' = Some v" using h(2) by (simp add: cache_hit_other)
qed

lemma walk_step_cases:
  fixes w :: "'d world" and ps part :: string
  defines "key \<equiv> next_key ps part"
  obtains
    (hit) v where "cache_hit (folderCache w) key = Some v"
      "walk_parts g (part # rest) parent ps w = walk_parts g rest v key w"
  | (find_failed) e d1 where "cache_hit (folderCache w) key = None"
      "walk_parts g (part # rest) parent ps w = (Inl e, w\<lparr>remote := d1\<rparr>)"
  | (found) fid d1 where "cache_hit (folderCache w) key = None" "truthy fid"
      "walk_parts g (part # rest) parent ps w =
         walk_parts g rest (StrId fid) key (w\<lparr>remote := d1, folderCache := (folderCache w)(key \<mapsto> fid)\<rparr>)"
  | (create_failed) e d2 where "cache_hit (folderCache w) key = None"
      "walk_parts g (part # rest) parent ps w =
         (Inl e, w\<lparr>remote := d2, creates := (key, False) # creates w\<rparr>)"
  | (created) fid d1 d2 where "cache_hit (folderCache w) key = None"
      "createFolder g part parent d1 = (Inr fid, d2)"
      "walk_parts g (part # rest) parent ps w =
         walk_parts g rest (StrId fid) key
           (w\<lparr>remote := d2, folderCache := (folderCache w)(key \<mapsto> fid),
              creates := (key, truthy fid) # creates w\<rparr>)"
proof (cases "cache_hit (folderCache w) key")
  case (Some v)
  then have "walk_parts g (part # rest) parent ps w = walk_parts g rest v key w"
    by (simp add: key_def Let_def)
  with Some show ?thesis by (rule hit)
next
  case None
  obtain rf d1 where ff: "findFolder g part parent (remote w) = (rf, d1)"
    by (cases "findFolder g part parent (remote w)")
  show ?thesis
  proof (cases rf)
    case (Inl e)
    with None ff have "walk_parts g (part # rest) parent ps w = (Inl e, w\<lparr>remote := d1\<rparr>)"
      by (simp add: key_def Let_def)
    with None show ?thesis by (rule find_failed)
  next
    case (Inr fo)
    show ?thesis
    proof (cases "truthy_id fo")
      case (Some fid)
      then have t: "truthy fid" by (simp add: truthy_id_Some)
      from None ff Inr Some have "walk_parts g (part # rest) parent ps w =
         walk_parts g rest (StrId fid) key (w\<lparr>remote := d1, folderCache := (folderCache w)(key \<mapsto> fid)\<rparr>)"
        by (simp add: key_def Let_def)
      with None t show ?thesis by (rule found)
    next
      case fnone: None
      obtain rc d2 where cf: "createFolder g part parent d1 = (rc, d2)"
        by (cases "createFolder g part parent d1")
      show ?thesis
      proof (cases rc)
        case (Inl e)
        with None ff Inr fnone cf have "walk_parts g (part # rest) parent ps w =
           (Inl e, w\<lparr>remote := d2, creates := (key, False) # creates w\<rparr>)"
          by (simp add: key_def Let_def)
        with None show ?thesis by (rule create_failed)
      next
        case inr2: (Inr fid)
        with None ff Inr fnone cf have "walk_parts g (part # rest) parent ps w =
           walk_parts g rest (StrId fid) key
             (w\<lparr>remote := d2, folderCache := (folderCache w)(key \<mapsto> fid),
                creates := (key, truthy fid) # creates w\<rparr>)"
          by (simp add: key_def Let_def)
        with None cf inr2 show ?thesis by (intro created) simp_all
      qed
    qed
  qed
qed

lemma walk_mono:
  "cache_le (folderCache w) (folderCache (snd (walk_parts g parts parent ps w)))"
proof (induction parts arbitrary: parent ps w)
  case Nil
  show ?case by (simp add: cache_le_refl)
next
  case (Cons part rest)
  show ?case
  proof (cases rule: walk_step_cases [of w ps part g rest parent])
    case (hit v)
    then show ?thesis using Cons.IH [where ?w = w and ?parent = v and ?ps = "next_key ps part"] by simp
  next
    case (find_failed e d1)
    then show ?thesis by (simp add: cache_le_refl)
  next
    case (found fid d1)
    define w1 where "w1 = w\<lparr>remote := d1, folderCache := (folderCache w)(next_key ps part \<mapsto> fid)\<rparr>"
    have c1: "folderCache w1 = (folderCache w)(next_key ps part \<mapsto> fid)" by (simp add: w1_def)
    have "cache_le (folderCache w) (folderCache w1)"
      unfolding c1 using found(1) by (rule cache_le_upd)
    moreover have "cache_le (folderCache w1) (folderCache (snd (walk_parts g rest (StrId fid) (next_key ps part) w1)))"
      by (rule Cons.IH)
    ultimately have "cache_le (folderCache w) (folderCache (snd (walk_parts g rest (StrId fid) (next_key ps part) w1)))"
      by (rule cache_le_trans)
    then show ?thesis unfolding found(3) w1_def .
  next
    case (create_failed e d2)
    then show ?thesis by (simp add: cache_le_refl)
  next
    case (created fid d1 d2)
    define w1 where "w1 = w\<lparr>remote := d2, folderCache := (folderCache w)(next_key ps part \<mapsto> fid),
              creates := (next_key ps part, truthy fid) # creates w\<rparr>"
    have c1: "folderCache w1 = (folderCache w)(next_key ps part \<mapsto> fid)" by (simp add: w1_def)
    have "cache_le (folderCache w) (folderCache w1)"
      unfolding c1 using created(1) by (rule cache_le_upd)
    moreover have "cache_le (folderCache w1) (folderCache (snd (walk_parts g rest (StrId fid) (next_key ps part) w1)))"
      by (rule Cons.IH)
    ultimately have "cache_le (folderCache w) (folderCache (snd (walk_parts g rest (StrId fid) (next_key ps part) w1)))"
      by (rule cache_le_trans)
    then show ?thesis unfolding created(3) w1_def .
  qed
qed

lemma miss_not_logged:
  "logged_cached w \<Longrightarrow> cache_hit (folderCache w) k = None \<Longrightarrow> (k, True) \<notin> set (creates w)"
  by (auto simp add: logged_cached_def)

lemma cache_hit_upd_keeps:
  "cache_hit c k' \<noteq> None \<Longrightarrow> truthy fid \<Longrightarrow> cache_hit (c(k \<mapsto> fid)) k' \<noteq> None"
  by (cases "k' = k") (simp_all add: cache_hit_upd cache_hit_other)

lemma logged_cached_upd:
  assumes "logged_cached w" "truthy fid"
  shows "logged_cached (w\<lparr>remote := d, folderCache := (folderCache w)(k \<mapsto> fid)\<rparr>)"
    and "logged_cached (w\<lparr>remote := d, folderCache := (folderCache w)(k \<mapsto> fid),
                           creates := (k, b) # creates w\<rparr>)"
proof -
  have keep: "\<And>k'. (k', True) \<in> set (creates w) \<Longrightarrow> cache_hit ((folderCache w)(k \<mapsto> fid)) k' \<noteq> None"
    using assms by (intro cache_hit_upd_keeps) (simp_all add: logged_cached_def)
  have new: "cache_hit ((folderCache w)(k \<mapsto> fid)) k \<noteq> None"
    using assms(2) by (simp add: cache_hit_upd)
  show "logged_cached (w\<lparr>remote := d, folderCache := (folderCache w)(k \<mapsto> fid)\<rparr>)"
    unfolding logged_cached_def using keep by simp
  show "logged_cached (w\<lparr>remote := d, folderCache := (folderCache w)(k \<mapsto> fid),
                           creates := (k, b) # creates w\<rparr>)"
    unfolding logged_cached_def using keep new by auto
qed

lemma logged_cached_upd_falsy:
  assumes "logged_cached w" "cache_hit (folderCache w) k = None"
  shows "logged_cached (w\<lparr>remote := d, folderCache := (folderCache w)(k \<mapsto> fid),
                           creates := (k, truthy fid) # creates w\<rparr>)"
proof (cases "truthy fid")
  case True
  with assms(1) show ?thesis by (rule logged_cached_upd(2))
next
  case False
  have nl: "(k, True) \<notin> set (creates w)" using assms by (rule miss_not_logged)
  have keep: "\<And>k'. (k', True) \<in> set (creates w) \<Longrightarrow> cache_hit ((folderCache w)(k \<mapsto> fid)) k' \<noteq> None"
  proof -
    fix k' assume m: "(k', True) \<in> set (creates w)"
    with nl have "k' \<noteq> k" by auto
    moreover from m assms(1) have "cache_hit (folderCache w) k' \<noteq> None" by (simp add: logged_cached_def)
    ultimately show "cache_hit ((folderCache w)(k \<mapsto> fid)) k' \<noteq> None" by (simp add: cache_hit_other)
  qed
  show ?thesis unfolding logged_cached_def using keep False by auto
qed

lemma logged_cached_failed:
  assumes "logged_cached w"
  shows "logged_cached (w\<lparr>remote := d\<rparr>)"
    and "logged_cached (w\<lparr>remote := d, creates := (k, False) # creates w\<rparr>)"
  using assms by (auto simp add: logged_cached_def)

lemma walk_inv:
  "logged_cached w \<Longrightarrow> good_creates (creates w) \<Longrightarrow>
   logged_cached (snd (walk_parts g parts parent ps w)) \<and>
   good_creates (creates (snd (walk_parts g parts parent ps w)))"
proof (induction parts arbitrary: parent ps w)
  case Nil
  then show ?case by simp
next
  case (Cons part rest)
  show ?case
  proof (cases rule: walk_step_cases [of w ps part g rest parent])
    case (hit v)
    then show ?thesis using Cons.IH [OF Cons.prems] by simp
  next
    case (find_failed e d1)
    then show ?thesis using Cons.prems logged_cached_failed(1) [where ?w = w and ?d = d1] by simp
  next
    case (found fid d1)
    have "logged_cached (w\<lparr>remote := d1, folderCache := (folderCache w)(next_key ps part \<mapsto> fid)\<rparr>)"
      using Cons.prems(1) found(2) by (rule logged_cached_upd(1))
    moreover have "good_creates (creates (w\<lparr>remote := d1, folderCache := (folderCache w)(next_key ps part \<mapsto> fid)\<rparr>))"
      using Cons.prems(2) by simp
    ultimately show ?thesis unfolding found(3) by (rule Cons.IH)
  next
    case (create_failed e d2)
    have "(next_key ps part, True) \<notin> set (creates w)"
      using Cons.prems(1) create_failed(1) by (rule miss_not_logged)
    then show ?thesis
      using create_failed Cons.prems
        logged_cached_failed(2) [where ?w = w and ?d = d2 and ?k = "next_key ps part"] by simp
  next
    case (created fid d1 d2)
    have nl: "(next_key ps part, True) \<notin> set (creates w)"
      using Cons.prems(1) created(1) by (rule miss_not_logged)
    have "logged_cached (w\<lparr>remote := d2, folderCache := (folderCache w)(next_key ps part \<mapsto> fid),
              creates := (next_key ps part, truthy fid) # creates w\<rparr>)"
      using Cons.prems(1) created(1) by (rule logged_cached_upd_falsy)
    moreover have "good_creates (creates (w\<lparr>remote := d2, folderCache := (folderCache w)(next_key ps part \<mapsto> fid),
              creates := (next_key ps part, truthy fid) # creates w\<rparr>))"
      using Cons.prems(2) nl by simp
    ultimately show ?thesis unfolding created(3) by (rule Cons.IH)
  qed
qed

lemma cache_le_hit: "cache_le c c' \<Longrightarrow> cache_hit c k = Some v \<Longrightarrow> cache_hit c' k = Some v"
  by (simp add: cache_le_def)

lemma walk_cached_mono:
  "cache_le c c' \<Longrightarrow> walk_cached c parts parent ps = Some i \<Longrightarrow>
   walk_cached c' parts parent ps = Some i"
proof (induction parts arbitrary: parent ps)
  case Nil
  then show ?case by simp
next
  case (Cons part rest)
  from Cons.prems(2) obtain v where v: "cache_hit c (next_key ps part) = Some v"
    and r: "walk_cached c rest v (next_key ps part) = Some i"
    by (auto split: option.splits)
  from Cons.prems(1) v have "cache_hit c' (next_key ps part) = Some v" by (rule cache_le_hit)
  moreover from Cons.prems(1) r have "walk_cached c' rest v (next_key ps part) = Some i" by (rule Cons.IH)
  ultimately show ?case by simp
qed

lemma walk_replay:
  "walk_cached (folderCache w) parts parent ps = Some i \<Longrightarrow>
   walk_parts g parts parent ps w = (Inr i, w)"
proof (induction parts arbitrary: parent ps)
  case Nil
  then show ?case by simp
next
  case (Cons part rest)
  from Cons.prems obtain v where v: "cache_hit (folderCache w) (next_key ps part) = Some v"
    and r: "walk_cached (folderCache w) rest v (next_key ps part) = Some i"
    by (auto split: option.splits)
  from r have "walk_parts g rest v (next_key ps part) w = (Inr i, w)" by (rule Cons.IH)
  with v show ?case by (simp add: Let_def)
qed

lemma walk_caches_tail:
  assumes hit: "cache_hit (folderCache w1) key = Some v"
    and run: "walk_parts g rest v key w1 = (Inr i, w')"
    and IH: "walk_cached (folderCache w') rest v key = Some i"
  shows "cache_hit (folderCache w') key = Some v"
proof -
  have "cache_le (folderCache w1) (folderCache (snd (walk_parts g rest v key w1)))"
    by (rule walk_mono)
  then have "cache_le (folderCache w1) (folderCache w')" using run by simp
  then show ?thesis using hit by (rule cache_le_hit)
qed

lemma walk_caches:
  "nonempty_ids g \<Longrightarrow> walk_parts g parts parent ps w = (Inr i, w') \<Longrightarrow>
   walk_cached (folderCache w') parts parent ps = Some i"
proof (induction parts arbitrary: parent ps w)
  case Nil
  then show ?case by simp
next
  case (Cons part rest)
  show ?case
  proof (cases rule: walk_step_cases [of w ps part g rest parent])
    case (hit v)
    from Cons.prems(2) hit(2) have run: "walk_parts g rest v (next_key ps part) w = (Inr i, w')" by simp
    from Cons.prems(1) run have IH: "walk_cached (folderCache w') rest v (next_key ps part) = Some i"
      by (rule Cons.IH)
    from hit(1) run IH have "cache_hit (folderCache w') (next_key ps part) = Some v"
      by (rule walk_caches_tail)
    with IH show ?thesis by simp
  next
    case (find_failed e d1)
    with Cons.prems(2) show ?thesis by simp
  next
    case (found fid d1)
    define w1 where "w1 = w\<lparr>remote := d1, folderCache := (folderCache w)(next_key ps part \<mapsto> fid)\<rparr>"
    have h1: "cache_hit (folderCache w1) (next_key ps part) = Some (StrId fid)"
      using found(2) by (simp add: w1_def cache_hit_upd)
    from Cons.prems(2) found(3) have run: "walk_parts g rest (StrId fid) (next_key ps part) w1 = (Inr i, w')"
      by (simp add: w1_def)
    from Cons.prems(1) run have IH: "walk_cached (folderCache w') rest (StrId fid) (next_key ps part) = Some i"
      by (rule Cons.IH)
    from h1 run IH have "cache_hit (folderCache w') (next_key ps part) = Some (StrId fid)"
      by (rule walk_caches_tail)
    with IH show ?thesis by simp
  next
    case (create_failed e d2)
    with Cons.prems(2) show ?thesis by simp
  next
    case (created fid d1 d2)
    define w1 where "w1 = w\<lparr>remote := d2, folderCache := (folderCache w)(next_key ps part \<mapsto> fid),
              creates := (next_key ps part, truthy fid) # creates w\<rparr>"
    from Cons.prems(1) have "fst (createFolder g part parent d1) \<noteq> Inr []"
      by (simp add: nonempty_ids_def createFolder_def)
    with created(2) have "truthy fid" by (auto simp add: truthy_def)
    then have h1: "cache_hit (folderCache w1) (next_key ps part) = Some (StrId fid)"
      by (simp add: w1_def cache_hit_upd)
    from Cons.prems(2) created(3) have run: "walk_parts g rest (StrId fid) (next_key ps part) w1 = (Inr i, w')"
      by (simp add: w1_def)
    from Cons.prems(1) run have IH: "walk_cached (folderCache w') rest (StrId fid) (next_key ps part) = Some i"
      by (rule Cons.IH)
    from h1 run IH have "cache_hit (folderCache w') (next_key ps part) = Some (StrId fid)"
      by (rule walk_caches_tail)
    with IH show ?thesis by simp
  qed
qed

lemma ensure_mono: "cache_le (folderCache w) (folderCache (snd (ensureFolderPath g path w)))"
  by (simp add: ensureFolderPath_def Let_def cache_le_refl walk_mono)

lemma ensure_inv:
  "logged_cached w \<Longrightarrow> good_creates (creates w) \<Longrightarrow>
   logged_cached (snd (ensureFolderPath g path w)) \<and>
   good_creates (creates (snd (ensureFolderPath g path w)))"
  by (simp add: ensureFolderPath_def Let_def walk_inv)

lemma resolve_all_mono: "cache_le (folderCache w) (folderCache (resolve_all g paths w))"
proof (induction paths arbitrary: w)
  case Nil
  show ?case by (simp add: cache_le_refl)
next
  case (Cons path paths)
  have "cache_le (folderCache w) (folderCache (snd (ensureFolderPath g path w)))"
    by (rule ensure_mono)
  moreover have "cache_le (folderCache (snd (ensureFolderPath g path w)))
                   (folderCache (resolve_all g paths (snd (ensureFolderPath g path w))))"
    by (rule Cons.IH)
  ultimately show ?case unfolding resolve_all.simps by (rule cache_le_trans)
qed

lemma resolve_all_inv:
  "logged_cached w \<Longrightarrow> good_creates (creates w) \<Longrightarrow>
   logged_cached (resolve_all g paths w) \<and> good_creates (creates (resolve_all g paths w))"
proof (induction paths arbitrary: w)
  case Nil
  then show ?case by simp
next
  case (Cons path paths)
  from ensure_inv [OF Cons.prems, of g path]
  show ?case unfolding resolve_all.simps using Cons.IH by blast
qed

lemma ensure_again:
  assumes ids: "nonempty_ids g"
    and first: "ensureFolderPath g path w = (Inr i, w1)"
    and later: "cache_le (folderCache w1) (folderCache w2)"
  shows "ensureFolderPath g path w2 = (Inr i, w2)"
proof (cases "length (path_parts g path) = 0")
  case True
  with first show ?thesis by (simp add: ensureFolderPath_def)
next
  case False
  with first have "walk_parts g (path_parts g path) (StrId ''root'') [] w = (Inr i, w1)"
    by (simp add: ensureFolderPath_def)
  with ids have "walk_cached (folderCache w1) (path_parts g path) (StrId ''root'') [] = Some i"
    by (rule walk_caches)
  with later have "walk_cached (folderCache w2) (path_parts g path) (StrId ''root'') [] = Some i"
    by (rule walk_cached_mono)
  then have "walk_parts g (path_parts g path) (StrId ''root'') [] w2 = (Inr i, w2)"
    by (rule walk_replay)
  with False show ?thesis by (simp add: ensureFolderPath_def)
qed

lemma good_creates_suffix: "good_creates (later @ earlier) \<Longrightarrow> good_creates earlier"
  by (induction later) auto

lemma good_creates_split:
  "good_creates (later @ (k, b) # earlier) \<Longrightarrow> (k, True) \<notin> set earlier"
  using good_creates_suffix [of later "(k, b) # earlier"] by simp

lemma good_creates_distinct:
  "good_creates l \<Longrightarrow> list_all snd l \<Longrightarrow> distinct (map fst l)"
proof (induction l)
  case Nil
  then show ?case by simp
next
  case (Cons c l)
  obtain k b where c: "c = (k, b)" by (cases c)
  from Cons.prems c have nk: "(k, True) \<notin> set l" and g: "good_creates l" and a: "list_all snd l"
    by simp_all
  have "k \<notin> fst ` set l"
  proof
    assume "k \<in> fst ` set l"
    then obtain b' where m: "(k, b') \<in> set l" by auto
    with a have "b'" by (auto simp add: list_all_iff)
    with m nk show False by simp
  qed
  with Cons.IH [OF g a] c show ?case by simp
qed

lemma new_session_inv: "logged_cached (new_session d) \<and> good_creates (creates (new_session d))"
  by (simp add: new_session_def logged_cached_def)

lemma good_creates_distinct_ok:
  "good_creates l \<Longrightarrow> distinct (map fst (filter snd l))"
proof (induction l)
  case Nil
  then show ?case by simp
next
  case (Cons c l)
  obtain k b where c: "c = (k, b)" by (cases c)
  from Cons.prems c have nk: "(k, True) \<notin> set l" and g: "good_creates l" by simp_all
  have "k \<notin> fst ` set (filter snd l)"
  proof
    assume "k \<in> fst ` set (filter snd l)"
    then obtain b' where "(k, b') \<in> set l" "b'" by auto
    with nk show False by simp
  qed
  with Cons.IH [OF g] c show ?case by simp
qed

lemma fake_ids: "nonempty_ids fake_gapi"
  by (simp add: nonempty_ids_def fake_gapi_def Let_def)

lemma flaky_first:
  "ensureFolderPath fake_gapi ''Work'' (new_session flaky_drive) =
     (Inl (RemoteFailure ''create rejected''),
      \<lparr> folderCache = Map.empty,
        remote = \<lparr> folders = [], rejects = 0, failing = [], updates = [] \<rparr>,
        creates = [(''Work'', False)] \<rparr>)"
  by (simp add: eval_defs flaky_drive_def)

lemma flaky_second:
  "ensureFolderPath fake_gapi ''Work''
     \<lparr> folderCache = Map.empty,
       remote = \<lparr> folders = [], rejects = 0, failing = [], updates = [] \<rparr>,
       creates = [(''Work'', False)] \<rparr> =
     (Inr (StrId ''folder''),
      \<lparr> folderCache = [''Work'' \<mapsto> ''folder''],
        remote = \<lparr> folders = [(''folder'', ''Work'', ''root'')], rejects = 0, failing = [], updates = [] \<rparr>,
        creates = [(''Work'', True), (''Work'', False)] \<rparr>)"
  by (simp add: eval_defs)

text \<open>
  Claim C4, as stated, fails when the store rejects a call. On a store that rejects its
  first create call (and gives non-empty ids), the first \<^verbatim>\<open>resolve('Work')\<close> fails, after a
  \<^verbatim>\<open>createFolder\<close> call that cached nothing; the second \<^verbatim>\<open>resolve('Work')\<close> returns an id,
  after a second \<^verbatim>\<open>createFolder\<close> call for the same prefix. So the two calls do not return
  the same identifier, and two create-folder calls are issued for the one prefix
  \<^verbatim>\<open>Work\<close>.
\<close>

theorem resolve_rejected_create_counterexample:
  "nonempty_ids fake_gapi \<and>
   fst (ensureFolderPath fake_gapi ''Work'' (new_session flaky_drive))
     = Inl (RemoteFailure ''create rejected'') \<and>
   fst (ensureFolderPath fake_gapi ''Work''
          (snd (ensureFolderPath fake_gapi ''Work'' (new_session flaky_drive))))
     = Inr (StrId ''folder'') \<and>
   creates (resolve_all fake_gapi [''Work'', ''Work''] (new_session flaky_drive))
     = [(''Work'', True), (''Work'', False)] \<and>
   \<not> distinct (map fst (creates (resolve_all fake_gapi [''Work'', ''Work''] (new_session flaky_drive))))"
  by (simp add: fake_ids flaky_first flaky_second)

text \<open>
  Claim C4, amended. Let the store never hand out the empty string as the id of a folder
  it creates; it may reject any call. In a session (a fresh cache, then any sequence
  \<open>before\<close> of resolve calls), let \<^verbatim>\<open>resolve(path)\<close> return the identifier \<open>i\<close>. Then after
  any further resolve calls \<open>between\<close>, \<^verbatim>\<open>resolve(path)\<close> returns the same identifier \<open>i\<close>
  and leaves the cache, the store and the log as they are, so it makes no call to the
  store at all. Throughout the session a create-folder call for a path prefix is never
  issued after one for the same prefix that returned an identifier; so at most one
  create-folder call per prefix returns an identifier, and when no create-folder call of
  the session is rejected, at most one is issued per prefix.
\<close>

theorem resolve_again_same_id_no_create_after_success:
  assumes ids: "nonempty_ids g"
    and first: "ensureFolderPath g path (resolve_all g before (new_session d0)) = (Inr i, w1)"
  shows "ensureFolderPath g path (resolve_all g between w1) = (Inr i, resolve_all g between w1) \<and>
         (\<forall>later k b earlier.
             creates (resolve_all g between w1) = later @ (k, b) # earlier \<longrightarrow>
             (k, True) \<notin> set earlier) \<and>
         distinct (map fst (filter snd (creates (resolve_all g between w1)))) \<and>
         (list_all snd (creates (resolve_all g between w1)) \<longrightarrow>
             distinct (map fst (creates (resolve_all g between w1))))"
proof -
  define w0 where "w0 = resolve_all g before (new_session d0)"
  define w2 where "w2 = resolve_all g between w1"
  have "cache_le (folderCache w1) (folderCache w2)"
    unfolding w2_def by (rule resolve_all_mono)
  with ids first have again: "ensureFolderPath g path w2 = (Inr i, w2)"
    by (rule ensure_again)
  have i0: "logged_cached w0 \<and> good_creates (creates w0)"
    unfolding w0_def using new_session_inv [of d0] resolve_all_inv [of "new_session d0" g before] by blast
  have w1: "w1 = snd (ensureFolderPath g path w0)" using first by (simp add: w0_def)
  have i1: "logged_cached w1 \<and> good_creates (creates w1)"
    unfolding w1 using i0 ensure_inv [of w0 g path] by blast
  have i2: "good_creates (creates w2)"
    unfolding w2_def using i1 resolve_all_inv [of w1 g between] by blast
  have split: "\<forall>later k b earlier. creates w2 = later @ (k, b) # earlier \<longrightarrow> (k, True) \<notin> set earlier"
    using i2 good_creates_split by metis
  have dist: "list_all snd (creates w2) \<longrightarrow> distinct (map fst (creates w2))"
    using i2 good_creates_distinct by blast
  have dok: "distinct (map fst (filter snd (creates w2)))"
    using i2 by (rule good_creates_distinct_ok)
  show ?thesis using again split dist dok unfolding w2_def by blast
qed

lemma fake_first:
  "ensureFolderPath fake_gapi ''Work/2024'' (new_session empty_drive) = (Inr (StrId ''folder+''), work_world)"
  by (simp add: eval_defs work_world_def)

lemma fake_second:
  "ensureFolderPath fake_gapi '' Work / 2024'' work_world = (Inr (StrId ''folder+''), work_world)"
  by (simp add: eval_defs work_world_def)

theorem resolve_again_same_id_no_create_after_success_witness:
  "nonempty_ids fake_gapi \<and>
   ensureFolderPath fake_gapi ''Work/2024'' (resolve_all fake_gapi [] (new_session empty_drive))
     = (Inr (StrId ''folder+''), work_world) \<and>
   resolve_all fake_gapi ['' Work / 2024''] work_world = work_world \<and>
   ensureFolderPath fake_gapi ''Work/2024'' work_world = (Inr (StrId ''folder+''), work_world) \<and>
   creates work_world = [(''Work/2024'', True), (''Work'', True)] \<and>
   list_all snd (creates work_world) \<and>
   distinct (map fst (creates work_world))"
proof -
  have f: "ensureFolderPath fake_gapi ''Work/2024'' (resolve_all fake_gapi [] (new_session empty_drive))
     = (Inr (StrId ''folder+''), work_world)"
    using fake_first by simp
  have b: "resolve_all fake_gapi ['' Work / 2024''] work_world = work_world"
    using fake_second by simp
  have c: "creates work_world = [(''Work/2024'', True), (''Work'', True)]"
    by (simp add: work_world_def)
  from resolve_again_same_id_no_create_after_success [OF fake_ids f, of "['' Work / 2024'']"]
  have "ensureFolderPath fake_gapi ''Work/2024'' work_world = (Inr (StrId ''folder+''), work_world)"
    and "list_all snd (creates work_world) \<longrightarrow> distinct (map fst (creates work_world))"
    unfolding b by blast+
  moreover have "list_all snd (creates work_world)" by (simp add: c)
  ultimately show ?thesis using fake_ids f b c by blast
qed

text \<open>
  A path whose first part names a member of \<^verbatim>\<open>Object.prototype\<close>: the read of the cache is
  truthy at once, so the call returns the member and makes no call to the store; a second
  part is then looked up and created under that member.
\<close>

lemma resolve_inherited_key:
  "ensureFolderPath fake_gapi ''constructor'' (new_session empty_drive) =
     (Inr (ProtoMember ''constructor''), new_session empty_drive)"
  "fst (ensureFolderPath fake_gapi ''constructor/a'' (new_session empty_drive)) = Inr (StrId ''folder'')"
  "creates (snd (ensureFolderPath fake_gapi ''constructor/a'' (new_session empty_drive)))
     = [(''constructor/a'', True)]"
  "folders (remote (snd (ensureFolderPath fake_gapi ''constructor/a'' (new_session empty_drive))))
     = [(''folder'', ''a'', ''function Object() { [native code] }'')]"
  by (simp_all add: eval_defs fake_member_text_def)

section \<open>Classification gateway: properties\<close>

lemma retag_ok: "r \<noteq> JNull \<Longrightarrow> r \<noteq> JUndefined \<Longrightarrow> \<exists>r'. retag r = Inr r'"
  by (cases r) simp_all

lemma retag_error: "retag r = Inl e \<Longrightarrow> e = TypeError \<and> (r = JNull \<or> r = JUndefined)"
  by (cases r) simp_all

lemma retag_all_ok:
  "JNull \<notin> set xs \<Longrightarrow> JUndefined \<notin> set xs \<Longrightarrow>
   \<exists>rs. retag_all xs = Inr rs \<and> length rs = length xs"
proof (induction xs)
  case Nil
  then show ?case by simp
next
  case (Cons x xs)
  from Cons.prems have "x \<noteq> JNull" "x \<noteq> JUndefined" by auto
  then obtain x' where x': "retag x = Inr x'" using retag_ok by blast
  from Cons.prems have "JNull \<notin> set xs" "JUndefined \<notin> set xs" by simp_all
  then obtain rs where "retag_all xs = Inr rs" "length rs = length xs" using Cons.IH by blast
  with x' show ?case by simp
qed

lemma retag_all_error:
  "JNull \<in> set xs \<or> JUndefined \<in> set xs \<Longrightarrow> retag_all xs = Inl TypeError"
proof (induction xs)
  case Nil
  then show ?case by simp
next
  case (Cons x xs)
  show ?case
  proof (cases "retag x")
    case (Inl e)
    then have "e = TypeError" using retag_error by blast
    with Inl show ?thesis by simp
  next
    case (Inr x')
    then have "x \<noteq> JNull" "x \<noteq> JUndefined" by auto
    with Cons.prems have "JNull \<in> set xs \<or> JUndefined \<in> set xs" by auto
    then have "retag_all xs = Inl TypeError" by (rule Cons.IH)
    with Inr show ?thesis by simp
  qed
qed

lemma analyzeFilesBatch_call:
  assumes "fs \<noteq> []" "key_to_use env apiKey = Some key"
    "list_all (\<lambda>f. valid_time (lastModified f)) fs"
  shows "analyzeFilesBatch env fs apiKey =
     (case generateContent env key (prompt_text env fs) of
        Inl e \<Rightarrow> Inl e
      | Inr response_text \<Rightarrow>
         (case truthy_id response_text of
            None \<Rightarrow> Inr []
          | Some text \<Rightarrow>
             (case JSON_parse env text of
                None \<Rightarrow> Inl SyntaxError
              | Some (JArr results) \<Rightarrow> retag_all results
              | Some _ \<Rightarrow> Inl TypeError)))"
  using assms
  by (simp add: analyzeFilesBatch_def key_to_use_def fileDescriptions_def prompt_text_def)

text \<open>
  Claim C7, as stated, fails: a payload that is JSON but not of the expected schema does
  not make the call fail. For the response text \<^verbatim>\<open>[{}]\<close> the call returns one result, the
  object \<^verbatim>\<open>{ category: undefined }\<close>, which has none of the required keys; and for the
  empty response text, which is not JSON at all, it returns the empty list of results.
\<close>

theorem classify_unvalidated_payload_counterexample:
  "[sample_file ''f1''] \<noteq> [] \<and>
   JSON_parse (fake_genai (Inr (Some ''[{}]''))) ''[{}]'' = Some (JArr [JObj []]) \<and>
   \<not> conforms (JObj []) \<and>
   analyzeFilesBatch (fake_genai (Inr (Some ''[{}]''))) [sample_file ''f1''] (Some ''AIzaKEY'')
     = Inr [JObj [(''category'', JUndefined)]] \<and>
   \<not> conforms (JObj [(''category'', JUndefined)]) \<and>
   JSON_parse (fake_genai (Inr (Some []))) [] = None \<and>
   analyzeFilesBatch (fake_genai (Inr (Some []))) [sample_file ''f1''] (Some ''AIzaKEY'') = Inr []"
  by (simp add: analyzeFilesBatch_def fake_genai_def fileDescriptions_def valid_time_def
        sample_file_def truthy_id_def truthy_def conforms_def obj_get_def obj_set_def is_JStr_def)

text \<open>
  Claim C7, amended. For a non-empty batch, with a key to use and modification times in
  range, the call has one of two results, an error or a list of results, never both.
  It fails with the remote call's error when the remote call fails; with \<open>SyntaxError\<close>
  when the response text is not empty and is not JSON; with \<open>TypeError\<close> when the parsed
  value is not an array, or is an array with a \<^verbatim>\<open>null\<close> element. Otherwise it succeeds:
  for a parsed array without \<^verbatim>\<open>null\<close> it returns one result per element, whatever the
  shape of the elements (there is no check against the schema), and for a missing or
  empty response text it returns the empty list.
\<close>

theorem classify_all_or_nothing:
  assumes "fs \<noteq> []" and "key_to_use env apiKey = Some key"
    and "list_all (\<lambda>f. valid_time (lastModified f)) fs"
    and "reply = generateContent env key (prompt_text env fs)"
  shows "(\<forall>e. reply = Inl e \<longrightarrow> analyzeFilesBatch env fs apiKey = Inl e) \<and>
         (\<forall>t. reply = Inr (Some t) \<and> t \<noteq> [] \<and> JSON_parse env t = None \<longrightarrow>
              analyzeFilesBatch env fs apiKey = Inl SyntaxError) \<and>
         (\<forall>t v. reply = Inr (Some t) \<and> t \<noteq> [] \<and> JSON_parse env t = Some v \<and> (\<forall>xs. v \<noteq> JArr xs) \<longrightarrow>
              analyzeFilesBatch env fs apiKey = Inl TypeError) \<and>
         (\<forall>t xs. reply = Inr (Some t) \<and> t \<noteq> [] \<and> JSON_parse env t = Some (JArr xs) \<and>
                 (JNull \<in> set xs \<or> JUndefined \<in> set xs) \<longrightarrow>
              analyzeFilesBatch env fs apiKey = Inl TypeError) \<and>
         (\<forall>t xs. reply = Inr (Some t) \<and> t \<noteq> [] \<and> JSON_parse env t = Some (JArr xs) \<and>
                 JNull \<notin> set xs \<and> JUndefined \<notin> set xs \<longrightarrow>
              (\<exists>rs. analyzeFilesBatch env fs apiKey = Inr rs \<and> retag_all xs = Inr rs \<and>
                    length rs = length xs)) \<and>
         (reply = Inr None \<or> reply = Inr (Some []) \<longrightarrow> analyzeFilesBatch env fs apiKey = Inr [])"
proof -
  note call = analyzeFilesBatch_call [OF assms(1-3), folded assms(4)]
  have 1: "\<forall>e. reply = Inl e \<longrightarrow> analyzeFilesBatch env fs apiKey = Inl e"
    by (simp add: call)
  have 2: "\<forall>t. reply = Inr (Some t) \<and> t \<noteq> [] \<and> JSON_parse env t = None \<longrightarrow>
              analyzeFilesBatch env fs apiKey = Inl SyntaxError"
    by (simp add: call truthy_id_def truthy_def)
  have 3: "\<forall>t v. reply = Inr (Some t) \<and> t \<noteq> [] \<and> JSON_parse env t = Some v \<and> (\<forall>xs. v \<noteq> JArr xs) \<longrightarrow>
              analyzeFilesBatch env fs apiKey = Inl TypeError"
  proof (intro allI impI)
    fix t v assume a: "reply = Inr (Some t) \<and> t \<noteq> [] \<and> JSON_parse env t = Some v \<and> (\<forall>xs. v \<noteq> JArr xs)"
    then show "analyzeFilesBatch env fs apiKey = Inl TypeError"
      by (cases v) (simp_all add: call truthy_id_def truthy_def)
  qed
  have 4: "\<forall>t xs. reply = Inr (Some t) \<and> t \<noteq> [] \<and> JSON_parse env t = Some (JArr xs) \<and>
                 (JNull \<in> set xs \<or> JUndefined \<in> set xs) \<longrightarrow>
              analyzeFilesBatch env fs apiKey = Inl TypeError"
    by (simp add: call truthy_id_def truthy_def retag_all_error)
  have 5: "\<forall>t xs. reply = Inr (Some t) \<and> t \<noteq> [] \<and> JSON_parse env t = Some (JArr xs) \<and>
                 JNull \<notin> set xs \<and> JUndefined \<notin> set xs \<longrightarrow>
              (\<exists>rs. analyzeFilesBatch env fs apiKey = Inr rs \<and> retag_all xs = Inr rs \<and>
                    length rs = length xs)"
  proof (intro allI impI)
    fix t xs assume a: "reply = Inr (Some t) \<and> t \<noteq> [] \<and> JSON_parse env t = Some (JArr xs) \<and>
                 JNull \<notin> set xs \<and> JUndefined \<notin> set xs"
    then obtain rs where rs: "retag_all xs = Inr rs" "length rs = length xs"
      using retag_all_ok by blast
    from a have "analyzeFilesBatch env fs apiKey = retag_all xs"
      by (simp add: call truthy_id_def truthy_def)
    with rs show "\<exists>rs. analyzeFilesBatch env fs apiKey = Inr rs \<and> retag_all xs = Inr rs \<and>
                    length rs = length xs" by simp
  qed
  have 6: "reply = Inr None \<or> reply = Inr (Some []) \<longrightarrow> analyzeFilesBatch env fs apiKey = Inr []"
    by (auto simp add: call truthy_id_def truthy_def)
  from 1 2 3 4 5 6 show ?thesis by blast
qed

theorem classify_all_or_nothing_witness:
  "[sample_file ''f1''] \<noteq> [] \<and>
   key_to_use (fake_genai (Inr (Some ''[{}]''))) (Some ''AIzaKEY'') = Some ''AIzaKEY'' \<and>
   list_all (\<lambda>f. valid_time (lastModified f)) [sample_file ''f1''] \<and>
   generateContent (fake_genai (Inr (Some ''[{}]''))) ''AIzaKEY''
      (prompt_text (fake_genai (Inr (Some ''[{}]''))) [sample_file ''f1'']) = Inr (Some ''[{}]'') \<and>
   JSON_parse (fake_genai (Inr (Some ''[{}]''))) ''[{}]'' = Some (JArr [JObj []]) \<and>
   JNull \<notin> set [JObj []] \<and> JUndefined \<notin> set [JObj []] \<and>
   analyzeFilesBatch (fake_genai (Inr (Some ''[{}]''))) [sample_file ''f1''] (Some ''AIzaKEY'')
     = Inr [JObj [(''category'', JUndefined)]]"
proof -
  let ?env = "fake_genai (Inr (Some ''[{}]''))"
  have a: "[sample_file ''f1''] \<noteq> []" by simp
  have b: "key_to_use ?env (Some ''AIzaKEY'') = Some ''AIzaKEY''"
    by (simp add: key_to_use_def truthy_id_def truthy_def)
  have c: "list_all (\<lambda>f. valid_time (lastModified f)) [sample_file ''f1'']"
    by (simp add: valid_time_def sample_file_def)
  have d: "Inr (Some ''[{}]'') = generateContent ?env ''AIzaKEY'' (prompt_text ?env [sample_file ''f1''])"
    by (simp add: fake_genai_def)
  have e: "JSON_parse ?env ''[{}]'' = Some (JArr [JObj []])" by (simp add: fake_genai_def)
  have f: "retag_all [JObj []] = Inr [JObj [(''category'', JUndefined)]]"
    by (simp add: obj_get_def obj_set_def)
  from classify_all_or_nothing [OF a b c d] e
  have "\<exists>rs. analyzeFilesBatch ?env [sample_file ''f1''] (Some ''AIzaKEY'') = Inr rs \<and>
             retag_all [JObj []] = Inr rs \<and> length rs = length [JObj []]"
    by simp
  with f have "analyzeFilesBatch ?env [sample_file ''f1''] (Some ''AIzaKEY'')
     = Inr [JObj [(''category'', JUndefined)]]" by auto
  with a b c d e show ?thesis by simp
qed

end
